theory Spec2Isabelle
  imports Main "HOL-Library.Word"
begin

section \<open>Data model (cmd/object_manager.go, cmd/main.go)\<close>

text \<open>
  Go's \<open>int64\<close> is a 64-bit word read in two's complement; a \<open>*Object\<close> is an
  address into the process heap, which is a list of objects that only grows (Go never
  frees an object that is still referenced, and the model never reuses an address).
\<close>

type_synonym int64 = "64 word"
type_synonym addr = nat

record Object =
  GDId :: string
  GDPId :: string
  LastMod :: int64
  Size :: int64

text \<open>
  The fields of \<open>Config\<close> that the object manager reads. \<open>object_manager.go\<close> calls the
  remote root folder identifier \<open>RootFolderID\<close>.
\<close>

record Config =
  RootFolderID :: string
  TestMode :: bool

text \<open>What \<open>os.Stat\<close> and \<open>filepath.Walk\<close> report of a file: \<open>IsDir()\<close>,
  \<open>ModTime().Unix()\<close> and \<open>Size()\<close>.\<close>

record FileInfo =
  fi_IsDir :: bool
  fi_ModTime :: int64
  fi_Size :: int64

record WalkResp =
  wr_loc :: string
  wr_modTimeUnix :: int64
  wr_isDir :: bool
  wr_size :: int64

text \<open>
  What the program takes from outside itself. \<open>binPath\<close> is a package-level variable
  whose declaration is not among the sources; \<open>filepath_Dir\<close> and \<open>filepath_Base\<close> are
  the library functions \<open>filepath.Dir\<close> and \<open>filepath.Base\<close>. \<open>os_Stat n p\<close> is the
  answer of the \<open>n\<close>-th call of \<open>os.Stat\<close>, made on \<open>p\<close> (\<open>Inl\<close> the error message), and
  \<open>cmd_Run n args\<close> the outcome of the \<open>n\<close>-th external command: \<open>Inr out\<close> when it
  exits with status zero and \<open>Inl out\<close> otherwise, \<open>out\<close> being its combined output after
  \<open>strings.TrimSpace\<close>. \<open>json_Marshal\<close> and \<open>json_Unmarshal\<close> stand for
  \<open>json.MarshalIndent\<close> and \<open>json.Unmarshal\<close> at the type \<open>map[string]*Object\<close>. A
  value of that type that shares nothing with the heap is \<open>None\<close> for the \<open>nil\<close> map and
  otherwise a map from keys to objects, \<open>None\<close> for a \<open>nil\<close> pointer. The program runs
  the decoder on an empty map only, so that the decoder is given by what the document
  makes of an empty map, with the error, if any: \<open>Null\<close> when the document is \<open>null\<close>,
  which sets the map to \<open>nil\<close>, and otherwise the members it has put in, in the order of
  the text, a member \<open>null\<close> as a \<open>nil\<close> pointer. \<open>os_WriteFile p data\<close> is \<open>None\<close>
  when the write succeeds and otherwise the error with the content the file is left with;
  \<open>os_OpenFile\<close> and \<open>io_ReadAll\<close> give the error, if any, of opening and of reading a
  file.
\<close>

type_synonym objectMapValue = "(string \<rightharpoonup> Object option) option"

datatype decoded = Null | Members "(string \<times> Object option) list"

record Env =
  binPath :: string
  filepath_Dir :: "string \<Rightarrow> string"
  filepath_Base :: "string \<Rightarrow> string"
  os_Stat :: "nat \<Rightarrow> string \<Rightarrow> string + FileInfo"
  cmd_Run :: "nat \<Rightarrow> string list \<Rightarrow> string + string"
  json_Marshal :: "objectMapValue \<Rightarrow> string + string"
  json_Unmarshal :: "string \<Rightarrow> decoded \<times> string option"
  filepath_Join :: "string \<Rightarrow> string \<Rightarrow> string"
  os_WriteFile :: "string \<Rightarrow> string \<Rightarrow> (string \<times> string option) option"
  os_OpenFile :: "string \<Rightarrow> string option"
  io_ReadAll :: "string \<Rightarrow> string option"

text \<open>
  The object manager together with the memory it points into and the trace of what it
  asked of the outside: \<open>cfg\<close> is the shared \<open>*Config\<close>, \<open>heap\<close> holds every \<open>Object\<close>
  allocated so far, \<open>execLog\<close> lists the argument vectors given to \<open>execCommand\<close>
  (oldest first), \<open>statLog\<close> the paths given to \<open>os.Stat\<close>, and \<open>files\<close> is the content
  of the files written with \<open>os.WriteFile\<close>. The mutex \<open>objectMapRWMu\<close> is always free
  between two operations of a single goroutine and is left out of this record.
\<close>

record ObjectManager =
  cfg :: Config
  ObjectMapFilePath :: string
  objectMap :: "string \<rightharpoonup> addr"
  heap :: "Object list"
  execLog :: "string list list"
  statLog :: "string list"
  files :: "string \<rightharpoonup> string"

section \<open>The metadata store\<close>

text \<open>\<open>&Object{...}\<close>: the new object gets the next unused address.\<close>

definition newObjectAt :: "Object \<Rightarrow> ObjectManager \<Rightarrow> addr \<times> ObjectManager" where
  "newObjectAt obj s = (length (heap s), s\<lparr>heap := heap s @ [obj]\<rparr>)"

text \<open>\<open>storeObject\<close> (lines 31-41).\<close>

definition storeObject :: "string \<Rightarrow> addr \<Rightarrow> ObjectManager \<Rightarrow> bool \<times> ObjectManager" where
  "storeObject key object s =
     (case objectMap s key of
        Some _ \<Rightarrow> (False, s)
      | None \<Rightarrow> (True, s\<lparr>objectMap := (objectMap s)(key \<mapsto> object)\<rparr>))"

text \<open>\<open>isLocked\<close> (lines 43-47).\<close>

definition isLocked :: "ObjectManager \<Rightarrow> addr \<Rightarrow> bool" where
  "isLocked s o_addr = (GDId (heap s ! o_addr) = [])"

text \<open>\<open>updateStoredObject\<close> (lines 49-54): \<open>f\<close> is given as the new value of the object.\<close>

definition updateStoredObject :: "addr \<Rightarrow> (Object \<Rightarrow> Object) \<Rightarrow> ObjectManager \<Rightarrow> ObjectManager" where
  "updateStoredObject o_addr f s = s\<lparr>heap := (heap s)[o_addr := f (heap s ! o_addr)]\<rparr>"

text \<open>
  \<open>loadObject\<close> (lines 56-67). The result \<open>Some a\<close> is \<open>(a, true)\<close> and \<open>None\<close> is
  \<open>(nil, false)\<close>. For the sync root it writes the configuration and allocates the
  sentinel object.
\<close>

definition loadObject :: "Env \<Rightarrow> string \<Rightarrow> ObjectManager \<Rightarrow> addr option \<times> ObjectManager" where
  "loadObject env key s =
     (if key = binPath env then
        (let s1 = (if RootFolderID (cfg s) = [] then s\<lparr>cfg := (cfg s)\<lparr>RootFolderID := ''.''\<rparr>\<rparr> else s);
             (a, s2) = newObjectAt \<lparr>GDId = RootFolderID (cfg s1), GDPId = [], LastMod = 0, Size = 0\<rparr> s1
         in (Some a, s2))
      else (objectMap s key, s))"

text \<open>\<open>deleteObject\<close> (lines 69-73).\<close>

definition deleteObject :: "string \<Rightarrow> ObjectManager \<Rightarrow> ObjectManager" where
  "deleteObject key s = s\<lparr>objectMap := (objectMap s)(key := None)\<rparr>"

text \<open>The mapping the store holds, by value: each key with the object its pointer refers to.\<close>

definition objects :: "ObjectManager \<Rightarrow> (string \<rightharpoonup> Object)" where
  "objects s = (\<lambda>key. map_option (\<lambda>a. heap s ! a) (objectMap s key))"

text \<open>The store's map as the encoder sees it: it is not \<open>nil\<close> and holds no \<open>nil\<close>
  pointer.\<close>

definition storedValue :: "ObjectManager \<Rightarrow> objectMapValue" where
  "storedValue s = Some (\<lambda>key. map_option Some (objects s key))"

text \<open>The map a decoder leaves when it started from an empty one: a later member with the
  same key replaces the earlier one.\<close>

definition decodedMap :: "decoded \<Rightarrow> objectMapValue" where
  "decodedMap d =
     (case d of
        Null \<Rightarrow> None
      | Members kvs \<Rightarrow> Some (fold (\<lambda>(k, v) m. m(k \<mapsto> v)) kvs Map.empty))"

text \<open>
  \<open>CopyObjects\<close> (lines 75-82): both errors are dropped; after a failed \<open>MarshalIndent\<close>
  the decoder is given no bytes. The copy shares no pointer with the store, so it is a
  map of values.
\<close>

definition CopyObjects :: "Env \<Rightarrow> ObjectManager \<Rightarrow> objectMapValue" where
  "CopyObjects env s =
     (let data = (case json_Marshal env (storedValue s) of Inl _ \<Rightarrow> [] | Inr d \<Rightarrow> d)
      in decodedMap (fst (json_Unmarshal env data)))"

text \<open>\<open>SaveToFile\<close> (lines 84-96): the result is the error, \<open>None\<close> for \<open>nil\<close>.\<close>

definition SaveToFile :: "Env \<Rightarrow> ObjectManager \<Rightarrow> string option \<times> ObjectManager" where
  "SaveToFile env s =
     (case json_Marshal env (CopyObjects env s) of
        Inl e \<Rightarrow> (Some e, s)
      | Inr data \<Rightarrow>
          (case os_WriteFile env (ObjectMapFilePath s) data of
             Some (e, left) \<Rightarrow> (Some e, s\<lparr>files := (files s)(ObjectMapFilePath s := left)\<rparr>)
           | None \<Rightarrow> (None, s\<lparr>files := (files s)(ObjectMapFilePath s \<mapsto> data)\<rparr>)))"

text \<open>
  \<open>execCommand\<close> (lines 261-278): every call is logged; in test mode no process is run and
  the answer is \<open>"0"\<close> (the sleep is not modelled).
\<close>

definition execCommand :: "Env \<Rightarrow> string list \<Rightarrow> ObjectManager \<Rightarrow> (string + string) \<times> ObjectManager" where
  "execCommand env args s =
     (let s1 = s\<lparr>execLog := execLog s @ [args]\<rparr>
      in if TestMode (cfg s) then (Inr ''0'', s1)
         else (cmd_Run env (length (execLog s)) args, s1))"

text \<open>\<open>os.Stat\<close>, logged.\<close>

definition osStat :: "Env \<Rightarrow> string \<Rightarrow> ObjectManager \<Rightarrow> (string + FileInfo) \<times> ObjectManager" where
  "osStat env p s = (os_Stat env (length (statLog s)) p, s\<lparr>statLog := statLog s @ [p]\<rparr>)"

section \<open>The object resolver\<close>

text \<open>The shell command of lines 147-150: \<open>d\<close> and \<open>b\<close> are the directory and the base name
  of the path, \<open>pid\<close> is the parent's \<open>GDId\<close>.\<close>

definition createArgs :: "string \<Rightarrow> string \<Rightarrow> string \<Rightarrow> string \<Rightarrow> string" where
  "createArgs d op b pid =
     (if pid = ''.'' then ''cd '' @ d @ '' && gdrive files '' @ op @ '' '' @ b @ '' --print-only-id''
      else ''cd '' @ d @ '' && gdrive files '' @ op @ '' '' @ b @ '' --parent '' @ pid
             @ '' --print-only-id'')"

text \<open>
  What \<open>NewObject\<close> returns: the object (\<open>None\<close> for \<open>nil\<close>), \<open>loaded\<close>, \<open>locked\<close> and the
  error (\<open>None\<close> for \<open>nil\<close>).
\<close>

type_synonym resolved = "addr option \<times> bool \<times> bool \<times> string option"

text \<open>
  Lines 120-168 of \<open>NewObject\<close>: what it does for \<open>loc\<close> once it holds the parent object
  \<open>pObj\<close>. The console line of line 166 is not modelled.
\<close>

definition NewObject_from_parent :: "Env \<Rightarrow> string \<Rightarrow> addr \<Rightarrow> ObjectManager \<Rightarrow> resolved \<times> ObjectManager" where
  "NewObject_from_parent env loc pObj s =
     (if isLocked s pObj then ((Some pObj, False, True, None), s)
      else
        (case osStat env loc s of
           (Inl e, s1) \<Rightarrow> ((None, False, False, Some e), s1)
         | (Inr wr, s1) \<Rightarrow>
             (let op = (if fi_IsDir wr then ''mkdir'' else ''upload'');
                  lastMod = (if fi_IsDir wr then 0 else fi_ModTime wr);
                  (lockedNObj, s2) =
                     newObjectAt \<lparr>GDId = [], GDPId = GDId (heap s1 ! pObj),
                                  LastMod = lastMod, Size = fi_Size wr\<rparr> s1;
                  (stored, s3) = storeObject loc lockedNObj s2
              in if \<not> stored then ((Some pObj, False, True, None), s3)
                 else
                   (let execArgs = createArgs (filepath_Dir env loc) op (filepath_Base env loc)
                                     (GDId (heap s3 ! pObj))
                    in case execCommand env [''sh'', ''-c'', execArgs] s3 of
                         (Inl e, s4) \<Rightarrow> ((None, False, False, Some e), deleteObject loc s4)
                       | (Inr nGDId, s4) \<Rightarrow>
                           ((Some lockedNObj, False, False, None),
                            updateStoredObject lockedNObj (\<lambda>ob. ob\<lparr>GDId := nGDId\<rparr>) s4)))))"

text \<open>
  \<open>NewObject\<close> (lines 98-169). It calls itself on the parent directory, and nothing bounds
  that recursion, so the result is \<open>None\<close> when the call does not return. A \<open>nil\<close> object
  returned without an error would be dereferenced by \<open>isLocked\<close>; that panic is \<open>None\<close>
  too.
\<close>

partial_function (option) NewObject :: "Env \<Rightarrow> string \<Rightarrow> ObjectManager \<Rightarrow> (resolved \<times> ObjectManager) option" where
  "NewObject env loc s =
     (case loadObject env loc s of
        (Some eObj, s1) \<Rightarrow> Some ((Some eObj, True, isLocked s1 eObj, None), s1)
      | (None, s1) \<Rightarrow>
          (case loadObject env (filepath_Dir env loc) s1 of
             (Some pObj, s2) \<Rightarrow> Some (NewObject_from_parent env loc pObj s2)
           | (None, s2) \<Rightarrow>
               Option.bind (NewObject env (filepath_Dir env loc) s2)
                 (\<lambda>((pObj, loaded, locked, err), s3).
                    if err \<noteq> None then Some ((None, False, False, err), s3)
                    else if loaded \<or> locked then Some ((pObj, loaded, locked, None), s3)
                    else (case pObj of
                            None \<Rightarrow> None
                          | Some p \<Rightarrow> Some (NewObject_from_parent env loc p s3)))))"

text \<open>The argument vector of line 200, for the stored identifier \<open>gid\<close>.\<close>

definition updateCmd :: "Env \<Rightarrow> WalkResp \<Rightarrow> string \<Rightarrow> string list" where
  "updateCmd env wr gid =
     [''sh'', ''-c'', ''cd '' @ filepath_Dir env (wr_loc wr) @ '' && gdrive files update '' @ gid
        @ '' '' @ filepath_Base env (wr_loc wr)]"

text \<open>\<open>UpdateObjectIfModTimeChanged\<close> (lines 189-213); \<open>\<le>\<close> on \<open>int64\<close> is signed.\<close>

definition UpdateObjectIfModTimeChanged ::
    "Env \<Rightarrow> WalkResp \<Rightarrow> addr \<Rightarrow> ObjectManager \<Rightarrow> (bool \<times> string option) \<times> ObjectManager" where
  "UpdateObjectIfModTimeChanged env wr object s =
     (if wr_isDir wr then ((False, None), s)
      else
        (let currMod = wr_modTimeUnix wr
         in if sint currMod \<le> sint (LastMod (heap s ! object)) \<or> wr_size wr = Size (heap s ! object)
            then ((False, None), s)
            else
              (case execCommand env (updateCmd env wr (GDId (heap s ! object))) s of
                 (Inl e, s1) \<Rightarrow> ((False, None), s1)
               | (Inr _, s1) \<Rightarrow>
                   ((True, None),
                    updateStoredObject object
                      (\<lambda>ob. ob\<lparr>LastMod := currMod, Size := wr_size wr\<rparr>) s1))))"

text \<open>
  \<open>Sync\<close> (lines 171-187): the result is \<open>(created, updated, locked, err)\<close>.
  \<open>Sync_after\<close> is lines 173-186, what \<open>Sync\<close> does with the answer of \<open>NewObject\<close>.
\<close>

definition Sync_after ::
    "Env \<Rightarrow> WalkResp \<Rightarrow> resolved \<times> ObjectManager
      \<Rightarrow> ((bool \<times> bool \<times> bool \<times> string option) \<times> ObjectManager) option" where
  "Sync_after env wr = (\<lambda>((object, loaded, locked, err), s1).
     if err \<noteq> None then Some ((False, False, False, err), s1)
     else if locked then Some ((False, False, True, None), s1)
     else if \<not> loaded then Some ((True, False, False, None), s1)
     else (case object of
             None \<Rightarrow> None
           | Some ob \<Rightarrow>
               (case UpdateObjectIfModTimeChanged env wr ob s1 of
                  ((updated, err2), s2) \<Rightarrow> Some ((False, updated, False, err2), s2))))"

definition Sync ::
    "Env \<Rightarrow> WalkResp \<Rightarrow> ObjectManager \<Rightarrow> ((bool \<times> bool \<times> bool \<times> string option) \<times> ObjectManager) option" where
  "Sync env wr s = Option.bind (NewObject env (wr_loc wr) s) (Sync_after env wr)"

text \<open>
  \<open>DeleteObjectGDrive\<close> (lines 236-240); \<open>object\<close> is an entry of a copy of the store,
  \<open>deleteCmd\<close> the argument vector of line 238. Reading \<open>object.GDId\<close> through a
  \<open>nil\<close> pointer panics: the result is \<open>None\<close>.
\<close>

definition deleteCmd :: "string \<Rightarrow> string list" where
  "deleteCmd gid = [''gdrive'', ''files'', ''delete'', gid, ''--recursive'']"

definition DeleteObjectGDrive :: "Env \<Rightarrow> string \<Rightarrow> Object option \<Rightarrow> ObjectManager \<Rightarrow> ObjectManager option" where
  "DeleteObjectGDrive env loc object s =
     (case object of
        None \<Rightarrow> None
      | Some ob \<Rightarrow>
          (case execCommand env (deleteCmd (GDId ob)) s of
             (_, s1) \<Rightarrow> Some (deleteObject loc s1)))"

text \<open>
  \<open>readObjectMap\<close> (lines 242-259) on the files of the machine: \<open>O_CREATE\<close> makes a missing
  file, empty.
\<close>

definition readObjectMap :: "Env \<Rightarrow> string \<Rightarrow> (string \<rightharpoonup> string) \<Rightarrow> (string + string) \<times> (string \<rightharpoonup> string)" where
  "readObjectMap env sourceLoc fs =
     (case os_OpenFile env sourceLoc of
        Some e \<Rightarrow> (Inl e, fs)
      | None \<Rightarrow>
          (let fs1 = (case fs sourceLoc of None \<Rightarrow> fs(sourceLoc \<mapsto> []) | Some _ \<Rightarrow> fs)
           in case io_ReadAll env sourceLoc of
                Some e \<Rightarrow> (Inl e, fs1)
              | None \<Rightarrow>
                  (let data = (case fs1 sourceLoc of None \<Rightarrow> [] | Some d \<Rightarrow> d)
                   in (Inr (if length data = 0 then ''{}'' else data), fs1))))"

text \<open>Each decoded member is stored under its key: an object as a new object of the new
  process, \<open>null\<close> as a \<open>nil\<close> pointer.\<close>

fun loadEntries :: "(string \<times> Object option) list \<Rightarrow> (string \<rightharpoonup> addr option) \<times> Object list \<Rightarrow> (string \<rightharpoonup> addr option) \<times> Object list" where
  "loadEntries [] mh = mh"
| "loadEntries ((k, None) # kvs) (m, h) = loadEntries kvs (m(k \<mapsto> None), h)"
| "loadEntries ((k, Some v) # kvs) (m, h) = loadEntries kvs (m(k \<mapsto> Some (length h)), h @ [v])"

text \<open>
  \<open>NewObjectManager\<close> (lines 215-234), started on the files \<open>fs\<close> with the configuration
  \<open>c\<close>. The result \<open>Inr None\<close> is a manager that the record \<open>ObjectManager\<close> does not
  describe: its map is \<open>nil\<close>, so that the first \<open>storeObject\<close> panics at line 38, or the
  map holds a \<open>nil\<close> pointer, which \<open>isLocked\<close> dereferences. The store file of such a
  manager was not written by \<open>SaveToFile\<close> from a manager of the record.
\<close>

definition NewObjectManager :: "Env \<Rightarrow> Config \<Rightarrow> (string \<rightharpoonup> string) \<Rightarrow> string + ObjectManager option" where
  "NewObjectManager env c fs =
     (let objectMapFilePath = filepath_Join env (binPath env) ''object_map.json''
      in case readObjectMap env objectMapFilePath fs of
           (Inl e, _) \<Rightarrow> Inl e
         | (Inr objectMapRaw, fs1) \<Rightarrow>
             (case json_Unmarshal env objectMapRaw of
                (_, Some e) \<Rightarrow> Inl e
              | (Null, None) \<Rightarrow> Inr None
              | (Members kvs, None) \<Rightarrow>
                  (case loadEntries kvs (Map.empty, []) of
                     (m, h) \<Rightarrow>
                       if list_ex (\<lambda>k. m k = Some None) (map fst kvs) then Inr None
                       else Inr (Some \<lparr>cfg = c, ObjectMapFilePath = objectMapFilePath,
                                       objectMap = (\<lambda>k. case m k of Some (Some a) \<Rightarrow> Some a | _ \<Rightarrow> None),
                                       heap = h, execLog = [], statLog = [], files = fs1\<rparr>))))"

section \<open>The sync orchestrator (cmd/main.go)\<close>

text \<open>
  The task that \<open>syncFiles\<close> gives the worker pool for one walk entry (lines 110-122):
  \<open>ntr\<close> is the list of entries kept for the next pass; the result is the task's error.
  \<open>syncTask_after\<close> is lines 112-121, what the task does with the answer of \<open>Sync\<close>.
\<close>

definition syncTask_after ::
    "WalkResp \<Rightarrow> WalkResp list \<Rightarrow> (bool \<times> bool \<times> bool \<times> string option) \<times> ObjectManager
      \<Rightarrow> string option \<times> WalkResp list \<times> ObjectManager" where
  "syncTask_after wrCp ntr = (\<lambda>((created, updated, locked, err), s1).
     if err \<noteq> None then (err, ntr, s1)
     else if locked then (None, ntr @ [wrCp], s1)
     else (None, ntr, s1))"

definition syncTask ::
    "Env \<Rightarrow> WalkResp \<Rightarrow> WalkResp list \<times> ObjectManager \<Rightarrow> (string option \<times> WalkResp list \<times> ObjectManager) option" where
  "syncTask env wrCp = (\<lambda>(ntr, s). map_option (syncTask_after wrCp ntr) (Sync env wrCp s))"

text \<open>
  The deletion phase of \<open>syncFiles\<close> (lines 135-156). \<open>walk\<close> is what the second
  \<open>filepath.Walk\<close> does: it fails, or visits the listed paths. \<open>order\<close> is the order in
  which \<open>range\<close> yields the keys of \<open>deletedQueue\<close>; the tasks are run one after the other
  in that order. On a \<open>nil\<close> map \<open>delete\<close> does nothing and \<open>len\<close> is 0. The result is
  \<open>None\<close> when a task panics, and otherwise the error that \<open>syncFiles\<close> returns at line
  143, if any, with the manager.
\<close>

definition deletionPhase ::
    "Env \<Rightarrow> string + string list \<Rightarrow> string list \<Rightarrow> ObjectManager \<Rightarrow> (string option \<times> ObjectManager) option" where
  "deletionPhase env walk order s =
     (let deletedQueue0 = CopyObjects env s
      in case walk of
           Inl e \<Rightarrow> Some (Some e, s)
         | Inr locs \<Rightarrow>
             (case deletedQueue0 of
                None \<Rightarrow> Some (None, s)
              | Some queue0 \<Rightarrow>
                  (let deletedQueue = fold (\<lambda>loc m. m(loc := None)) locs queue0
                   in map_option (Pair None)
                        (fold (\<lambda>loc r. case deletedQueue loc of
                                          None \<Rightarrow> r
                                        | Some object \<Rightarrow>
                                            Option.bind r (DeleteObjectGDrive env loc object))
                           order (Some s)))))"

section \<open>Goroutines: the resolver under interleaving\<close>

text \<open>The placeholder of lines 136-141 for a parent identifier \<open>pid\<close>, and the argument
  vector of line 153.\<close>

definition placeholderFor :: "string \<Rightarrow> FileInfo \<Rightarrow> Object" where
  "placeholderFor pid wr =
     \<lparr>GDId = [], GDPId = pid, LastMod = (if fi_IsDir wr then 0 else fi_ModTime wr), Size = fi_Size wr\<rparr>"

definition createCmd :: "Env \<Rightarrow> string \<Rightarrow> FileInfo \<Rightarrow> string \<Rightarrow> string list" where
  "createCmd env loc wr pid =
     [''sh'', ''-c'',
      createArgs (filepath_Dir env loc) (if fi_IsDir wr then ''mkdir'' else ''upload'')
        (filepath_Base env loc) pid]"

text \<open>
  \<open>sync.RWMutex\<close>: the number of goroutines that hold it for reading, and whether one
  holds it for writing. Taking it is possible only in the states where Go lets the caller
  through; a goroutine that cannot take it has no step.
\<close>

record RWMutex =
  readers :: nat
  writer :: bool

text \<open>
  Where a goroutine stands in \<open>NewObject\<close>, by the line it is about to execute, with the
  local variables that are live there (\<open>eObj\<close>; \<open>pObj\<close>; \<open>pObj\<close>, \<open>wr\<close>, \<open>lockedNObj\<close>;
  \<open>lockedNObj\<close> and the index of the command in the log; \<open>err\<close>; \<open>nGDId\<close>). Each store
  operation is two steps: taking the mutex, then its body together with the deferred
  release. \<open>L110_wait\<close> is a frame whose recursive call has not returned, \<open>Ret\<close> a frame
  that executes \<open>return\<close>, \<open>Panic\<close> a nil dereference.
\<close>

datatype pc =
    L100_RLock
  | L100_loadObject
  | L102_RLock addr
  | L102_isLocked addr
  | L107_RLock
  | L107_loadObject
  | L110_wait
  | L120_RLock addr
  | L120_isLocked addr
  | L124_Stat addr
  | L143_Lock addr FileInfo addr
  | L143_storeObject addr FileInfo addr
  | L153_exec addr FileInfo addr
  | L153_wait addr nat
  | L155_Lock string
  | L155_deleteObject string
  | L159_Lock addr string
  | L159_update addr string
  | Ret resolved
  | Panic

text \<open>A step moves the frame to another line or calls \<open>NewObject\<close> on another path.\<close>

datatype action = Goto pc | Call string

definition RLock :: "RWMutex \<Rightarrow> RWMutex option" where
  "RLock mu = (if writer mu then None else Some (mu\<lparr>readers := Suc (readers mu)\<rparr>))"

definition RUnlock :: "RWMutex \<Rightarrow> RWMutex" where
  "RUnlock mu = mu\<lparr>readers := readers mu - 1\<rparr>"

definition Lock :: "RWMutex \<Rightarrow> RWMutex option" where
  "Lock mu = (if writer mu \<or> readers mu \<noteq> 0 then None else Some (mu\<lparr>writer := True\<rparr>))"

definition Unlock :: "RWMutex \<Rightarrow> RWMutex" where
  "Unlock mu = mu\<lparr>writer := False\<rparr>"

definition acquire :: "(RWMutex \<Rightarrow> RWMutex option) \<Rightarrow> pc \<Rightarrow> ObjectManager \<Rightarrow> RWMutex
    \<Rightarrow> (action \<times> ObjectManager \<times> RWMutex) option" where
  "acquire lock next s mu = map_option (\<lambda>mu1. (Goto next, s, mu1)) (lock mu)"

text \<open>
  One step of the frame of \<open>NewObject(loc)\<close> that stands at the given line, on the shared
  manager \<open>s\<close> and mutex \<open>mu\<close>. Lines 124-141 (the stat and the construction of the
  placeholder) are one step; the command is logged when it is issued (\<open>L153_exec\<close>) and
  answered in a later step (\<open>L153_wait\<close>).
\<close>

fun fstep :: "Env \<Rightarrow> string \<Rightarrow> pc \<Rightarrow> ObjectManager \<Rightarrow> RWMutex \<Rightarrow> (action \<times> ObjectManager \<times> RWMutex) option" where
  "fstep env loc L100_RLock s mu = acquire RLock L100_loadObject s mu"
| "fstep env loc L100_loadObject s mu =
     (case loadObject env loc s of
        (Some eObj, s1) \<Rightarrow> Some (Goto (L102_RLock eObj), s1, RUnlock mu)
      | (None, s1) \<Rightarrow> Some (Goto L107_RLock, s1, RUnlock mu))"
| "fstep env loc (L102_RLock eObj) s mu = acquire RLock (L102_isLocked eObj) s mu"
| "fstep env loc (L102_isLocked eObj) s mu =
     Some (Goto (Ret (Some eObj, True, isLocked s eObj, None)), s, RUnlock mu)"
| "fstep env loc L107_RLock s mu = acquire RLock L107_loadObject s mu"
| "fstep env loc L107_loadObject s mu =
     (case loadObject env (filepath_Dir env loc) s of
        (Some pObj, s1) \<Rightarrow> Some (Goto (L120_RLock pObj), s1, RUnlock mu)
      | (None, s1) \<Rightarrow> Some (Call (filepath_Dir env loc), s1, RUnlock mu))"
| "fstep env loc L110_wait s mu = None"
| "fstep env loc (L120_RLock pObj) s mu = acquire RLock (L120_isLocked pObj) s mu"
| "fstep env loc (L120_isLocked pObj) s mu =
     (if isLocked s pObj then Some (Goto (Ret (Some pObj, False, True, None)), s, RUnlock mu)
      else Some (Goto (L124_Stat pObj), s, RUnlock mu))"
| "fstep env loc (L124_Stat pObj) s mu =
     (case osStat env loc s of
        (Inl e, s1) \<Rightarrow> Some (Goto (Ret (None, False, False, Some e)), s1, mu)
      | (Inr wr, s1) \<Rightarrow>
          (case newObjectAt (placeholderFor (GDId (heap s1 ! pObj)) wr) s1 of
             (lockedNObj, s2) \<Rightarrow> Some (Goto (L143_Lock pObj wr lockedNObj), s2, mu)))"
| "fstep env loc (L143_Lock pObj wr lockedNObj) s mu =
     acquire Lock (L143_storeObject pObj wr lockedNObj) s mu"
| "fstep env loc (L143_storeObject pObj wr lockedNObj) s mu =
     (case storeObject loc lockedNObj s of
        (stored, s1) \<Rightarrow>
          if \<not> stored then Some (Goto (Ret (Some pObj, False, True, None)), s1, Unlock mu)
          else Some (Goto (L153_exec pObj wr lockedNObj), s1, Unlock mu))"
| "fstep env loc (L153_exec pObj wr lockedNObj) s mu =
     Some (Goto (L153_wait lockedNObj (length (execLog s))),
           s\<lparr>execLog := execLog s @ [createCmd env loc wr (GDId (heap s ! pObj))]\<rparr>, mu)"
| "fstep env loc (L153_wait lockedNObj k) s mu =
     (case (if TestMode (cfg s) then Inr ''0'' else cmd_Run env k (execLog s ! k)) of
        Inl e \<Rightarrow> Some (Goto (L155_Lock e), s, mu)
      | Inr nGDId \<Rightarrow> Some (Goto (L159_Lock lockedNObj nGDId), s, mu))"
| "fstep env loc (L155_Lock e) s mu = acquire Lock (L155_deleteObject e) s mu"
| "fstep env loc (L155_deleteObject e) s mu =
     Some (Goto (Ret (None, False, False, Some e)), deleteObject loc s, Unlock mu)"
| "fstep env loc (L159_Lock lockedNObj nGDId) s mu = acquire Lock (L159_update lockedNObj nGDId) s mu"
| "fstep env loc (L159_update lockedNObj nGDId) s mu =
     Some (Goto (Ret (Some lockedNObj, False, False, None)),
           updateStoredObject lockedNObj (\<lambda>ob. ob\<lparr>GDId := nGDId\<rparr>) s, Unlock mu)"
| "fstep env loc (Ret r) s mu = None"
| "fstep env loc Panic s mu = None"

text \<open>Lines 111-118: where the caller goes on when the recursive call returns \<open>r\<close>.\<close>

fun resume :: "resolved \<Rightarrow> pc" where
  "resume (pObj, loaded, locked, err) =
     (if err \<noteq> None then Ret (None, False, False, err)
      else if loaded \<or> locked then Ret (pObj, loaded, locked, None)
      else (case pObj of None \<Rightarrow> Panic | Some p \<Rightarrow> L120_RLock p))"

text \<open>
  A goroutine is a stack of frames, the innermost first, or has returned from its
  outermost call. The world is the shared manager, its mutex and the goroutines.
\<close>

datatype goroutine = Running "(string \<times> pc) list" | Finished resolved

record World =
  om :: ObjectManager
  rwmu :: RWMutex
  threads :: "goroutine list"

text \<open>
  The step of a goroutine, if it has one: a frame at a \<open>return\<close> is popped and its caller
  resumes (the outermost frame ends the goroutine); any other frame takes its own step.
\<close>

fun returning :: "pc \<Rightarrow> resolved option" where
  "returning (Ret r) = Some r"
| "returning _ = None"

fun gstep :: "Env \<Rightarrow> ObjectManager \<Rightarrow> RWMutex \<Rightarrow> goroutine \<Rightarrow> (goroutine \<times> ObjectManager \<times> RWMutex) option" where
  "gstep env s mu (Finished r) = None"
| "gstep env s mu (Running []) = None"
| "gstep env s mu (Running ((loc, pc) # rest)) =
     (case returning pc of
        Some r \<Rightarrow>
          (case rest of
             [] \<Rightarrow> Some (Finished r, s, mu)
           | (loc', pc') # rest' \<Rightarrow> Some (Running ((loc', resume r) # rest'), s, mu))
      | None \<Rightarrow>
          (case fstep env loc pc s mu of
             None \<Rightarrow> None
           | Some (Goto pc', s1, mu1) \<Rightarrow> Some (Running ((loc, pc') # rest), s1, mu1)
           | Some (Call d, s1, mu1) \<Rightarrow>
               Some (Running ((d, L100_RLock) # (loc, L110_wait) # rest), s1, mu1)))"

text \<open>The step of goroutine \<open>i\<close> of the world, if it has one.\<close>

definition tstep :: "Env \<Rightarrow> World \<Rightarrow> nat \<Rightarrow> World option" where
  "tstep env w i =
     (if length (threads w) \<le> i then None
      else map_option (\<lambda>(g, s1, mu1). w\<lparr>om := s1, rwmu := mu1, threads := (threads w)[i := g]\<rparr>)
             (gstep env (om w) (rwmu w) (threads w ! i)))"

text \<open>The world after the goroutines have stepped in the order \<open>sched\<close>; \<open>None\<close> when one of
  them had no step at its turn.\<close>

fun runSchedule :: "Env \<Rightarrow> nat list \<Rightarrow> World \<Rightarrow> World option" where
  "runSchedule env [] w = Some w"
| "runSchedule env (i # sched) w = Option.bind (tstep env w i) (runSchedule env sched)"

text \<open>One goroutine per path, each about to enter \<open>NewObject\<close>, and the mutex free.\<close>

definition startWorld :: "ObjectManager \<Rightarrow> string list \<Rightarrow> World" where
  "startWorld s locs =
     \<lparr>om = s, rwmu = \<lparr>readers = 0, writer = False\<rparr>,
      threads = map (\<lambda>loc. Running [(loc, L100_RLock)]) locs\<rparr>"

text \<open>A world of one goroutine \<open>g\<close> on the manager \<open>s\<close>, the mutex free.\<close>

definition solo :: "ObjectManager \<Rightarrow> goroutine \<Rightarrow> World" where
  "solo s g = \<lparr>om = s, rwmu = \<lparr>readers = 0, writer = False\<rparr>, threads = [g]\<rparr>"

section \<open>Runs of goroutines before any backend answer\<close>

text \<open>The line at which a goroutine stands: that of its innermost frame.\<close>

fun topPc :: "goroutine \<Rightarrow> pc option" where
  "topPc (Running ((loc, pc) # rest)) = Some pc"
| "topPc _ = None"


fun reading :: "pc \<Rightarrow> nat" where
  "reading L100_loadObject = 1"
| "reading (L102_isLocked eObj) = 1"
| "reading L107_loadObject = 1"
| "reading (L120_isLocked pObj) = 1"
| "reading _ = 0"

fun writing :: "pc \<Rightarrow> nat" where
  "writing (L143_storeObject pObj wr lockedNObj) = 1"
| "writing (L155_deleteObject e) = 1"
| "writing (L159_update lockedNObj nGDId) = 1"
| "writing _ = 0"



text \<open>A counter read at the line of a goroutine, and summed over the goroutines of a world.\<close>

definition onTop :: "(pc \<Rightarrow> nat) \<Rightarrow> goroutine \<Rightarrow> nat" where
  "onTop f g = (case topPc g of None \<Rightarrow> 0 | Some pc \<Rightarrow> f pc)"

definition tally :: "(pc \<Rightarrow> nat) \<Rightarrow> World \<Rightarrow> nat" where
  "tally f w = sum_list (map (onTop f) (threads w))"










definition held :: "RWMutex \<Rightarrow> nat" where
  "held mu = (if writer mu then 1 else 0)"


text \<open>The configuration is unchanged, or its empty root identifier has become \<open>.\<close>.\<close>

definition cfgKept :: "Config \<Rightarrow> Config \<Rightarrow> bool" where
  "cfgKept c c' \<longleftrightarrow> c' = c \<or> (RootFolderID c = [] \<and> c' = c\<lparr>RootFolderID := ''.''\<rparr>)"

text \<open>
  \<open>reaches env w0 w\<close>: the world \<open>w\<close> is reached from \<open>w0\<close> by steps of any kind. In every
  world reached from a start, the mutex counts the goroutines inside its sections, and
  is not held for reading and for writing at once.
\<close>

inductive reaches :: "Env \<Rightarrow> World \<Rightarrow> World \<Rightarrow> bool" for env w0 where
  reaches_start: "reaches env w0 w0"
| reaches_step: "reaches env w0 w \<Longrightarrow> tstep env w i = Some w' \<Longrightarrow> reaches env w0 w'"

definition lockInv :: "World \<Rightarrow> bool" where
  "lockInv w \<longleftrightarrow>
     readers (rwmu w) = tally reading w \<and> held (rwmu w) = tally writing w
     \<and> (writer (rwmu w) \<longrightarrow> readers (rwmu w) = 0)"

text \<open>The object that \<open>loadObject\<close> makes for the sync root once the root identifier is
  \<open>.\<close>.\<close>

definition rootSentinel :: Object where
  "rootSentinel = \<lparr>GDId = ''.'', GDPId = [], LastMod = 0, Size = 0\<rparr>"

section \<open>Properties of states and of runs\<close>

text \<open>
  Every pointer held by the map refers to an allocated object. \<open>rootRemoteID\<close> is the
  identifier a lookup of the sync root returns; \<open>parentRemoteID env s key\<close> is the remote
  identifier that a lookup of the parent path of \<open>key\<close> returns in state \<open>s\<close>: that of the
  root sentinel, or that of the store's entry. An entry is \<open>linked\<close> when its \<open>GDPId\<close> is
  that identifier and is not empty; a command is \<open>createdUnderParent\<close> when it is a creation
  command for some path whose parent argument is that identifier, not empty. \<open>grows\<close>
  collects what a run of \<open>NewObject\<close> does to a state.
\<close>

definition validPointers :: "ObjectManager \<Rightarrow> bool" where
  "validPointers s \<longleftrightarrow> (\<forall>key a. objectMap s key = Some a \<longrightarrow> a < length (heap s))"

definition rootRemoteID :: "ObjectManager \<Rightarrow> string" where
  "rootRemoteID s = (if RootFolderID (cfg s) = [] then ''.'' else RootFolderID (cfg s))"

definition parentRemoteID :: "Env \<Rightarrow> ObjectManager \<Rightarrow> string \<Rightarrow> string option" where
  "parentRemoteID env s key =
     (if filepath_Dir env key = binPath env then Some (rootRemoteID s)
      else map_option (\<lambda>p. GDId (heap s ! p)) (objectMap s (filepath_Dir env key)))"

definition linked :: "Env \<Rightarrow> ObjectManager \<Rightarrow> string \<Rightarrow> addr \<Rightarrow> bool" where
  "linked env s key a \<longleftrightarrow>
     GDPId (heap s ! a) \<noteq> [] \<and> parentRemoteID env s key = Some (GDPId (heap s ! a))"

definition createdUnderParent :: "Env \<Rightarrow> ObjectManager \<Rightarrow> string list \<Rightarrow> bool" where
  "createdUnderParent env s c \<longleftrightarrow>
     (\<exists>loc wr pid. c = createCmd env loc wr pid \<and> pid \<noteq> [] \<and> parentRemoteID env s loc = Some pid)"

definition grows :: "Env \<Rightarrow> ObjectManager \<Rightarrow> ObjectManager \<Rightarrow> bool" where
  "grows env s s' \<longleftrightarrow>
     (\<exists>new. heap s' = heap s @ new)
     \<and> (\<forall>key a. objectMap s key = Some a \<longrightarrow> objectMap s' key = Some a)
     \<and> rootRemoteID s' = rootRemoteID s
     \<and> validPointers s'
     \<and> (\<forall>key a. objectMap s key = None \<and> objectMap s' key = Some a \<longrightarrow>
            length (heap s) \<le> a \<and> linked env s' key a)
     \<and> (\<exists>cmds. execLog s' = execLog s @ cmds \<and> (\<forall>c \<in> set cmds. createdUnderParent env s' c))"

section \<open>Concrete surroundings for running the model\<close>

text \<open>
  \<open>filepath.Dir\<close> and \<open>filepath.Base\<close> on slash-separated paths that are already clean
  (no \<open>.\<close> or \<open>..\<close> element, no doubled separator).
\<close>

definition unixDir :: "string \<Rightarrow> string" where
  "unixDir p =
     (let d = rev (dropWhile (\<lambda>c. c \<noteq> CHR ''/'') (rev p));
          t = rev (dropWhile (\<lambda>c. c = CHR ''/'') (rev d))
      in if d = [] then ''.'' else if t = [] then ''/'' else t)"

definition unixBase :: "string \<Rightarrow> string" where
  "unixBase p =
     (if p = [] then ''.''
      else (let q = rev (dropWhile (\<lambda>c. c = CHR ''/'') (rev p))
            in if q = [] then ''/'' else rev (takeWhile (\<lambda>c. c \<noteq> CHR ''/'') (rev q))))"

text \<open>
  A machine whose sync root is \<open>/sync\<close>, with the given answers of \<open>os.Stat\<close> and of the
  external commands, a JSON codec that only knows the empty object, and file operations
  that succeed.
\<close>

definition testEnv :: "(nat \<Rightarrow> string \<Rightarrow> string + FileInfo) \<Rightarrow> (nat \<Rightarrow> string list \<Rightarrow> string + string) \<Rightarrow> Env" where
  "testEnv st run =
     \<lparr>binPath = ''/sync'', filepath_Dir = unixDir, filepath_Base = unixBase,
      os_Stat = st, cmd_Run = run,
      json_Marshal = (\<lambda>m. Inr ''{}''), json_Unmarshal = (\<lambda>d. (Members [], None)),
      filepath_Join = (\<lambda>a b. a @ ''/'' @ b),
      os_WriteFile = (\<lambda>p d. None), os_OpenFile = (\<lambda>p. None), io_ReadAll = (\<lambda>p. None)\<rparr>"

text \<open>A store that tracks the file \<open>/sync/f\<close>, and a walk entry that sees it newer and
  larger.\<close>

definition fileManager :: ObjectManager where
  "fileManager =
     \<lparr>cfg = \<lparr>RootFolderID = ''.'', TestMode = False\<rparr>, ObjectMapFilePath = ''/sync/object_map.json'',
      objectMap = [''/sync/f'' \<mapsto> 0],
      heap = [\<lparr>GDId = ''id1'', GDPId = ''.'', LastMod = 100, Size = 10\<rparr>],
      execLog = [], statLog = [], files = Map.empty\<rparr>"

definition changedFile :: WalkResp where
  "changedFile = \<lparr>wr_loc = ''/sync/f'', wr_modTimeUnix = 200, wr_isDir = False, wr_size = 20\<rparr>"

text \<open>
  A tree \<open>/sync/a/b\<close> with a directory and a file, a backend that answers the first
  command with \<open>idA\<close> and every later one with \<open>idB\<close>, and the store after resolving
  \<open>/sync/a/b\<close> from the empty one.
\<close>

definition treeStat :: "nat \<Rightarrow> string \<Rightarrow> string + FileInfo" where
  "treeStat n p =
     (if p = ''/sync/a'' then Inr \<lparr>fi_IsDir = True, fi_ModTime = 40, fi_Size = 4096\<rparr>
      else if p = ''/sync/a/b'' then Inr \<lparr>fi_IsDir = False, fi_ModTime = 50, fi_Size = 7\<rparr>
      else Inl ''no such file or directory'')"

definition idRun :: "nat \<Rightarrow> string list \<Rightarrow> string + string" where
  "idRun n args = Inr (if n = 0 then ''idA'' else ''idB'')"

definition treeManager :: ObjectManager where
  "treeManager =
     \<lparr>cfg = \<lparr>RootFolderID = ''.'', TestMode = False\<rparr>, ObjectMapFilePath = ''/sync/object_map.json'',
      objectMap = [''/sync/a'' \<mapsto> 1, ''/sync/a/b'' \<mapsto> 2],
      heap = [\<lparr>GDId = ''.'', GDPId = [], LastMod = 0, Size = 0\<rparr>,
              \<lparr>GDId = ''idA'', GDPId = ''.'', LastMod = 0, Size = 4096\<rparr>,
              \<lparr>GDId = ''idB'', GDPId = ''idA'', LastMod = 50, Size = 7\<rparr>],
      execLog = [[''sh'', ''-c'', ''cd /sync && gdrive files mkdir a --print-only-id''],
                 [''sh'', ''-c'', ''cd /sync/a && gdrive files upload b --parent idA --print-only-id'']],
      statLog = [''/sync/a'', ''/sync/a/b''], files = Map.empty\<rparr>"

text \<open>A file \<open>/sync/a/c\<close> whose upload the backend refuses, and the store after the attempt
  to resolve it from \<open>treeManager\<close>.\<close>

definition failingStat :: "nat \<Rightarrow> string \<Rightarrow> string + FileInfo" where
  "failingStat n p = Inr \<lparr>fi_IsDir = False, fi_ModTime = 60, fi_Size = 9\<rparr>"

definition failingRun :: "nat \<Rightarrow> string list \<Rightarrow> string + string" where
  "failingRun n args = Inl ''quota exceeded''"

definition afterFailure :: ObjectManager where
  "afterFailure =
     treeManager\<lparr>statLog := statLog treeManager @ [''/sync/a/c''],
                 heap := heap treeManager @ [\<lparr>GDId = [], GDPId = ''idA'', LastMod = 60, Size = 9\<rparr>],
                 execLog := execLog treeManager
                   @ [[''sh'', ''-c'', ''cd /sync/a && gdrive files upload c --parent idA --print-only-id'']]\<rparr>"

text \<open>
  A store that tracks a file whose name is the single byte \<open>0xFF\<close>, which is not valid
  UTF-8; that name with the byte replaced by U+FFFD (\<open>EF BF BD\<close> in UTF-8); and the text
  that \<open>json.MarshalIndent\<close> with the indentation \<open>\t\<close> writes for a map with one
  member, the object of that store, when the key is written as \<open>k\<close>.
\<close>

definition byteName :: string where
  "byteName = ''/sync/'' @ [CHR 0xFF]"

definition coercedName :: string where
  "coercedName = ''/sync/'' @ [CHR 0xEF, CHR 0xBF, CHR 0xBD]"

definition byteObject :: Object where
  "byteObject = \<lparr>GDId = ''idF'', GDPId = ''.'', LastMod = 5, Size = 3\<rparr>"

definition byteManager :: ObjectManager where
  "byteManager =
     \<lparr>cfg = \<lparr>RootFolderID = ''.'', TestMode = False\<rparr>, ObjectMapFilePath = ''/sync/object_map.json'',
      objectMap = [byteName \<mapsto> 0], heap = [byteObject],
      execLog = [], statLog = [], files = Map.empty\<rparr>"

definition memberDocument :: "string \<Rightarrow> string" where
  "memberDocument k =
     concat [''{'', [CHR 0x0A, CHR 0x09, CHR 0x22], k, [CHR 0x22], '': {'',
             [CHR 0x0A, CHR 0x09, CHR 0x09, CHR 0x22], ''gd_id'', [CHR 0x22], '': '', [CHR 0x22], ''idF'', [CHR 0x22], '','',
             [CHR 0x0A, CHR 0x09, CHR 0x09, CHR 0x22], ''gdp_id'', [CHR 0x22], '': '', [CHR 0x22], ''.'', [CHR 0x22], '','',
             [CHR 0x0A, CHR 0x09, CHR 0x09, CHR 0x22], ''last_mod'', [CHR 0x22], '': 5,'',
             [CHR 0x0A, CHR 0x09, CHR 0x09, CHR 0x22], ''size'', [CHR 0x22], '': 3'',
             [CHR 0x0A, CHR 0x09], ''}'', [CHR 0x0A], ''}'']"

text \<open>
  The document of \<open>byteManager\<close>: the encoder coerces a string to valid UTF-8 and writes
  each invalid byte as the six characters \<open>\ufffd\<close>. The document of the decoded copy:
  the encoder writes the bytes of U+FFFD as they are.
\<close>

definition byteDocument :: string where
  "byteDocument = memberDocument (''/sync/'' @ [CHR 0x5C] @ ''ufffd'')"

definition coercedDocument :: string where
  "coercedDocument = memberDocument coercedName"

text \<open>
  A machine whose JSON codec does what \<open>encoding/json\<close> does with these two maps and
  these two documents: the decoder reads the escape \<open>\ufffd\<close> and the bytes of U+FFFD as
  the same key. No file is found by \<open>os.Stat\<close> and every command succeeds.
\<close>

definition coercingEnv :: Env where
  "coercingEnv = (testEnv (\<lambda>n p. Inl ''no such file or directory'') (\<lambda>n args. Inr []))
     \<lparr>json_Marshal := (\<lambda>v. case v of
          None \<Rightarrow> Inr ''null''
        | Some m \<Rightarrow>
            if m byteName \<noteq> None then Inr byteDocument
            else if m coercedName \<noteq> None then Inr coercedDocument
            else Inr ''{}''),
      json_Unmarshal := (\<lambda>d.
         if d = byteDocument \<or> d = coercedDocument then (Members [(coercedName, Some byteObject)], None)
         else if d = ''{}'' then (Members [], None)
         else (Members [], Some ''invalid character''))\<rparr>"

text \<open>A run of insert attempts for one key, one candidate after the other, with what each
  attempt returned.\<close>

fun storeAttempts :: "string \<Rightarrow> addr list \<Rightarrow> ObjectManager \<Rightarrow> bool list \<times> ObjectManager" where
  "storeAttempts key [] s = ([], s)"
| "storeAttempts key (c # cs) s =
     (let (stored, s1) = storeObject key c s;
          (rs, s2) = storeAttempts key cs s1
      in (stored # rs, s2))"

definition emptyManager :: ObjectManager where
  "emptyManager =
     \<lparr>cfg = \<lparr>RootFolderID = [], TestMode = False\<rparr>, ObjectMapFilePath = ''/sync/object_map.json'',
      objectMap = Map.empty, heap = [], execLog = [], statLog = [], files = Map.empty\<rparr>"

text \<open>The empty store of a machine whose remote root is configured as \<open>.\<close>.\<close>

definition rootedManager :: ObjectManager where
  "rootedManager = emptyManager\<lparr>cfg := \<lparr>RootFolderID = ''.'', TestMode = False\<rparr>\<rparr>"

text \<open>
  Two goroutines on the tree of \<open>treeStat\<close>, one resolving \<open>/sync/a/b\<close> and one
  \<open>/sync/a\<close>: the store once both have returned, when the second ran between the first's
  lookup of \<open>/sync/a\<close> (line 107) and its recursive call; the walk entry of the file; and
  the store after \<open>Sync\<close> has gone on with what \<open>NewObject\<close> returned for the file.
\<close>

definition afterRace :: ObjectManager where
  "afterRace =
     rootedManager\<lparr>objectMap := [''/sync/a'' \<mapsto> 1],
                    heap := [\<lparr>GDId = ''.'', GDPId = [], LastMod = 0, Size = 0\<rparr>,
                             \<lparr>GDId = ''idA'', GDPId = ''.'', LastMod = 0, Size = 4096\<rparr>],
                    execLog := [[''sh'', ''-c'', ''cd /sync && gdrive files mkdir a --print-only-id'']],
                    statLog := [''/sync/a'']\<rparr>"

definition newFile :: WalkResp where
  "newFile = \<lparr>wr_loc = ''/sync/a/b'', wr_modTimeUnix = 50, wr_isDir = False, wr_size = 7\<rparr>"

definition afterSync :: ObjectManager where
  "afterSync =
     afterRace\<lparr>heap := [\<lparr>GDId = ''.'', GDPId = [], LastMod = 0, Size = 0\<rparr>,
                          \<lparr>GDId = ''idA'', GDPId = ''.'', LastMod = 50, Size = 7\<rparr>],
                 execLog := [[''sh'', ''-c'', ''cd /sync && gdrive files mkdir a --print-only-id''],
                             [''sh'', ''-c'', ''cd /sync/a && gdrive files update idA b'']]\<rparr>"



text \<open>
  Two goroutines that look the sync root up on a store whose root identifier is empty,
  both inside \<open>loadObject\<close>; the store after one such lookup; and the walk entry of the
  directory \<open>/sync/a\<close>.
\<close>

definition twoReaders :: World where
  "twoReaders =
     \<lparr>om = emptyManager, rwmu = \<lparr>readers = 2, writer = False\<rparr>,
      threads = [Running [(''/sync'', L100_loadObject)], Running [(''/sync'', L100_loadObject)]]\<rparr>"

definition rootLookedUp :: ObjectManager where
  "rootLookedUp =
     emptyManager\<lparr>cfg := \<lparr>RootFolderID = ''.'', TestMode = False\<rparr>, heap := [rootSentinel]\<rparr>"

definition dirA :: WalkResp where
  "dirA = \<lparr>wr_loc = ''/sync/a'', wr_modTimeUnix = 40, wr_isDir = True, wr_size = 4096\<rparr>"



section \<open>Theorems\<close>

lemma storeAttempts_present:
  "objectMap s key = Some a \<Longrightarrow> storeAttempts key cs s = (replicate (length cs) False, s)"
  by (induction cs) (simp_all add: storeObject_def)

text \<open>
  C2: \<open>storeObject\<close> returns true exactly when the key had no entry, and then the map holds
  the candidate under the key and is otherwise as before; when the key had an entry it
  returns false and the whole state is unchanged. Hence, of a run of attempts for one
  key that starts without an entry, the first succeeds, every later one fails, and the
  map keeps the first candidate.
\<close>

theorem storeObject_compare_and_insert:
  "(fst (storeObject key c s) \<longleftrightarrow> objectMap s key = None)
   \<and> (objectMap s key = None \<longrightarrow>
        storeObject key c s = (True, s\<lparr>objectMap := (objectMap s)(key \<mapsto> c)\<rparr>))
   \<and> (objectMap s key \<noteq> None \<longrightarrow> storeObject key c s = (False, s))
   \<and> (objectMap s key = None \<longrightarrow>
        storeAttempts key (c # cs) s =
          (True # replicate (length cs) False, s\<lparr>objectMap := (objectMap s)(key \<mapsto> c)\<rparr>))"
proof -
  have later: "objectMap s key = None \<Longrightarrow>
      storeAttempts key cs (s\<lparr>objectMap := (objectMap s)(key \<mapsto> c)\<rparr>) =
        (replicate (length cs) False, s\<lparr>objectMap := (objectMap s)(key \<mapsto> c)\<rparr>)"
    by (rule storeAttempts_present [where a = c]) simp
  show ?thesis
    using later by (auto simp: storeObject_def split: option.splits)
qed

theorem storeObject_compare_and_insert_witness:
  "objectMap emptyManager ''/sync/a'' = None
   \<and> storeObject ''/sync/a'' 7 emptyManager
       = (True, emptyManager\<lparr>objectMap := (objectMap emptyManager)(''/sync/a'' \<mapsto> 7)\<rparr>)
   \<and> objectMap (emptyManager\<lparr>objectMap := (objectMap emptyManager)(''/sync/a'' \<mapsto> 7)\<rparr>) ''/sync/a'' \<noteq> None
   \<and> storeObject ''/sync/a'' 8 (emptyManager\<lparr>objectMap := (objectMap emptyManager)(''/sync/a'' \<mapsto> 7)\<rparr>)
       = (False, emptyManager\<lparr>objectMap := (objectMap emptyManager)(''/sync/a'' \<mapsto> 7)\<rparr>)
   \<and> storeAttempts ''/sync/a'' [7, 8, 9] emptyManager
       = ([True, False, False], emptyManager\<lparr>objectMap := (objectMap emptyManager)(''/sync/a'' \<mapsto> 7)\<rparr>)"
  using storeObject_compare_and_insert [of "''/sync/a''" 7 emptyManager "[8, 9]"]
        storeObject_compare_and_insert [of "''/sync/a''" 8
          "emptyManager\<lparr>objectMap := (objectMap emptyManager)(''/sync/a'' \<mapsto> 7)\<rparr>" "[]"]
  by (simp add: emptyManager_def storeObject_def)

lemma NewObject_existing:
  "loc \<noteq> binPath env \<Longrightarrow> objectMap s loc = Some ob \<Longrightarrow>
   NewObject env loc s = Some ((Some ob, True, isLocked s ob, None), s)"
  by (subst NewObject.simps) (simp add: loadObject_def)

text \<open>
  C6: the modification check logs one update command, on the stored identifier, exactly
  when the entry seen is not a directory, its modification time is greater than the
  stored one and its size differs from the stored one; otherwise it logs nothing, and for
  a directory it changes nothing at all. It reports an update exactly when that command
  was issued and succeeded, and then the stored \<open>LastMod\<close> and \<open>Size\<close> are both the
  observed values while the identifiers stay; when it reports none the objects are as
  before. For an entry that the store already holds unlocked, \<open>Sync\<close> returns just this.
\<close>

theorem UpdateObjectIfModTimeChanged_condition:
  assumes "UpdateObjectIfModTimeChanged env wr ob s = ((updated, err), s')"
  shows "(execLog s' =
            (if \<not> wr_isDir wr \<and> sint (LastMod (heap s ! ob)) < sint (wr_modTimeUnix wr)
                  \<and> wr_size wr \<noteq> Size (heap s ! ob)
             then execLog s @ [updateCmd env wr (GDId (heap s ! ob))]
             else execLog s))
       \<and> (wr_isDir wr \<longrightarrow> \<not> updated \<and> s' = s)
       \<and> (updated \<longleftrightarrow>
            \<not> wr_isDir wr \<and> sint (LastMod (heap s ! ob)) < sint (wr_modTimeUnix wr)
            \<and> wr_size wr \<noteq> Size (heap s ! ob)
            \<and> (TestMode (cfg s) \<or>
                 (\<exists>out. cmd_Run env (length (execLog s)) (updateCmd env wr (GDId (heap s ! ob))) = Inr out)))
       \<and> (updated \<longrightarrow>
            heap s' = (heap s)[ob := (heap s ! ob)\<lparr>LastMod := wr_modTimeUnix wr, Size := wr_size wr\<rparr>])
       \<and> (updated \<and> ob < length (heap s) \<longrightarrow>
            LastMod (heap s' ! ob) = wr_modTimeUnix wr \<and> Size (heap s' ! ob) = wr_size wr
            \<and> GDId (heap s' ! ob) = GDId (heap s ! ob) \<and> GDPId (heap s' ! ob) = GDPId (heap s ! ob))
       \<and> (\<not> updated \<longrightarrow> heap s' = heap s)
       \<and> objectMap s' = objectMap s \<and> err = None
       \<and> (objectMap s (wr_loc wr) = Some ob \<and> wr_loc wr \<noteq> binPath env \<and> \<not> isLocked s ob \<longrightarrow>
            Sync env wr s = Some ((False, updated, False, None), s'))"
proof -
  have sync: "objectMap s (wr_loc wr) = Some ob \<and> wr_loc wr \<noteq> binPath env \<and> \<not> isLocked s ob \<longrightarrow>
            Sync env wr s = Some ((False, updated, False, None), s')"
    using assms
    by (auto simp: Sync_def Sync_after_def NewObject_existing UpdateObjectIfModTimeChanged_def Let_def
          split: if_splits prod.splits sum.splits)
  show ?thesis
    using assms sync
    by (auto simp: UpdateObjectIfModTimeChanged_def execCommand_def updateStoredObject_def
          Let_def split: if_splits prod.splits sum.splits)
qed

lemma changedFile_run:
  "UpdateObjectIfModTimeChanged (testEnv st (\<lambda>n a. Inr ''ok'')) changedFile 0 fileManager
     = ((True, None),
        fileManager\<lparr>execLog := [[''sh'', ''-c'', ''cd /sync && gdrive files update id1 f'']],
                    heap := [\<lparr>GDId = ''id1'', GDPId = ''.'', LastMod = 200, Size = 20\<rparr>]\<rparr>)"
  by (simp add: UpdateObjectIfModTimeChanged_def execCommand_def updateStoredObject_def updateCmd_def
        testEnv_def fileManager_def changedFile_def unixDir_def unixBase_def)

theorem UpdateObjectIfModTimeChanged_condition_witness:
  "UpdateObjectIfModTimeChanged (testEnv (\<lambda>n p. Inl ''no'') (\<lambda>n a. Inr ''ok'')) changedFile 0 fileManager
     = ((True, None),
        fileManager\<lparr>execLog := [[''sh'', ''-c'', ''cd /sync && gdrive files update id1 f'']],
                    heap := [\<lparr>GDId = ''id1'', GDPId = ''.'', LastMod = 200, Size = 20\<rparr>]\<rparr>)
   \<and> objectMap fileManager (wr_loc changedFile) = Some 0
   \<and> wr_loc changedFile \<noteq> binPath (testEnv (\<lambda>n p. Inl ''no'') (\<lambda>n a. Inr ''ok''))
   \<and> \<not> isLocked fileManager 0
   \<and> Sync (testEnv (\<lambda>n p. Inl ''no'') (\<lambda>n a. Inr ''ok'')) changedFile fileManager
       = Some ((False, True, False, None),
          fileManager\<lparr>execLog := [[''sh'', ''-c'', ''cd /sync && gdrive files update id1 f'']],
                    heap := [\<lparr>GDId = ''id1'', GDPId = ''.'', LastMod = 200, Size = 20\<rparr>]\<rparr>)"
proof -
  have pre: "objectMap fileManager (wr_loc changedFile) = Some 0
      \<and> wr_loc changedFile \<noteq> binPath (testEnv (\<lambda>n p. Inl ''no'') (\<lambda>n a. Inr ''ok''))
      \<and> \<not> isLocked fileManager 0"
    by (simp add: fileManager_def changedFile_def testEnv_def isLocked_def)
  show ?thesis
    using UpdateObjectIfModTimeChanged_condition [OF changedFile_run [of "\<lambda>n p. Inl ''no''"]]
          changedFile_run [of "\<lambda>n p. Inl ''no''"] pre
    by simp
qed

text \<open>
  C7: when the update command is issued and fails, the modification check returns
  \<open>(false, nil)\<close>; the command is in the log and nothing else of the state has changed,
  so the stored \<open>LastMod\<close> and \<open>Size\<close> are as before. \<open>Sync\<close> then reports neither an
  update nor an error.
\<close>

theorem UpdateObjectIfModTimeChanged_backend_failure:
  assumes "\<not> wr_isDir wr"
    and "sint (LastMod (heap s ! ob)) < sint (wr_modTimeUnix wr)"
    and "wr_size wr \<noteq> Size (heap s ! ob)"
    and "\<not> TestMode (cfg s)"
    and "cmd_Run env (length (execLog s)) (updateCmd env wr (GDId (heap s ! ob))) = Inl e"
  shows "UpdateObjectIfModTimeChanged env wr ob s
           = ((False, None), s\<lparr>execLog := execLog s @ [updateCmd env wr (GDId (heap s ! ob))]\<rparr>)
      \<and> (objectMap s (wr_loc wr) = Some ob \<and> wr_loc wr \<noteq> binPath env \<and> \<not> isLocked s ob \<longrightarrow>
            Sync env wr s = Some ((False, False, False, None),
               s\<lparr>execLog := execLog s @ [updateCmd env wr (GDId (heap s ! ob))]\<rparr>))"
  using assms
  by (auto simp: Sync_def Sync_after_def NewObject_existing UpdateObjectIfModTimeChanged_def execCommand_def Let_def)

theorem UpdateObjectIfModTimeChanged_backend_failure_witness:
  "\<not> wr_isDir changedFile
   \<and> sint (LastMod (heap fileManager ! 0)) < sint (wr_modTimeUnix changedFile)
   \<and> wr_size changedFile \<noteq> Size (heap fileManager ! 0)
   \<and> \<not> TestMode (cfg fileManager)
   \<and> objectMap fileManager (wr_loc changedFile) = Some 0
   \<and> \<not> isLocked fileManager 0
   \<and> UpdateObjectIfModTimeChanged (testEnv (\<lambda>n p. Inl ''no'') (\<lambda>n a. Inl ''quota exceeded'')) changedFile 0 fileManager
       = ((False, None), fileManager\<lparr>execLog := [[''sh'', ''-c'', ''cd /sync && gdrive files update id1 f'']]\<rparr>)
   \<and> Sync (testEnv (\<lambda>n p. Inl ''no'') (\<lambda>n a. Inl ''quota exceeded'')) changedFile fileManager
       = Some ((False, False, False, None),
               fileManager\<lparr>execLog := [[''sh'', ''-c'', ''cd /sync && gdrive files update id1 f'']]\<rparr>)"
  using UpdateObjectIfModTimeChanged_backend_failure
          [of changedFile fileManager 0 "testEnv (\<lambda>n p. Inl ''no'') (\<lambda>n a. Inl ''quota exceeded'')"
              "''quota exceeded''"]
  by (simp add: fileManager_def changedFile_def testEnv_def isLocked_def updateCmd_def unixDir_def unixBase_def)

lemma grows_refl: "validPointers s \<Longrightarrow> grows env s s"
  by (auto simp: grows_def)

lemma parentRemoteID_stable:
  assumes "parentRemoteID env s key = Some pid" "validPointers s"
    and "heap s' = heap s @ new" "\<forall>k p. objectMap s k = Some p \<longrightarrow> objectMap s' k = Some p"
    and "rootRemoteID s' = rootRemoteID s"
  shows "parentRemoteID env s' key = Some pid"
  using assms
  by (auto simp: parentRemoteID_def validPointers_def nth_append split: if_splits)

lemma linked_stable:
  assumes "linked env s key a" "a < length (heap s)" "validPointers s"
    and "heap s' = heap s @ new" "\<forall>k p. objectMap s k = Some p \<longrightarrow> objectMap s' k = Some p"
    and "rootRemoteID s' = rootRemoteID s"
  shows "linked env s' key a"
  using assms parentRemoteID_stable [OF _ assms(3-6)]
  by (auto simp: linked_def nth_append)

lemma createdUnderParent_stable:
  assumes "createdUnderParent env s c" "validPointers s"
    and "heap s' = heap s @ new" "\<forall>k p. objectMap s k = Some p \<longrightarrow> objectMap s' k = Some p"
    and "rootRemoteID s' = rootRemoteID s"
  shows "createdUnderParent env s' c"
  using assms(1) parentRemoteID_stable [OF _ assms(2-5)]
  unfolding createdUnderParent_def by blast

lemma grows_trans:
  assumes "grows env s s1" "grows env s1 s2"
  shows "grows env s s2"
proof -
  from assms obtain n1 n2 where h1: "heap s1 = heap s @ n1" and h2: "heap s2 = heap s1 @ n2"
    by (auto simp: grows_def)
  have v1: "validPointers s1" and v2: "validPointers s2" using assms by (auto simp: grows_def)
  have m1: "\<forall>k p. objectMap s k = Some p \<longrightarrow> objectMap s1 k = Some p"
    and m2: "\<forall>k p. objectMap s1 k = Some p \<longrightarrow> objectMap s2 k = Some p"
    using assms by (auto simp: grows_def)
  have r: "rootRemoteID s2 = rootRemoteID s1" "rootRemoteID s1 = rootRemoteID s"
    using assms by (auto simp: grows_def)
  have new: "length (heap s) \<le> a \<and> linked env s2 key a"
    if "objectMap s key = None" "objectMap s2 key = Some a" for key a
  proof (cases "objectMap s1 key")
    case None
    with that assms(2) have "length (heap s1) \<le> a \<and> linked env s2 key a"
      by (auto simp: grows_def)
    then show ?thesis using h1 by simp
  next
    case (Some b)
    with m2 that have ba: "b = a" by auto
    from Some that(1) assms(1) have l: "length (heap s) \<le> b \<and> linked env s1 key b"
      by (auto simp: grows_def)
    from Some v1 have "b < length (heap s1)" by (auto simp: validPointers_def)
    with l linked_stable [OF _ _ v1 h2 m2 r(1)] ba show ?thesis by auto
  qed
  from assms obtain c1 c2 where
    c1: "execLog s1 = execLog s @ c1" "\<forall>c \<in> set c1. createdUnderParent env s1 c" and
    c2: "execLog s2 = execLog s1 @ c2" "\<forall>c \<in> set c2. createdUnderParent env s2 c"
    unfolding grows_def by blast
  have "\<forall>c \<in> set c1. createdUnderParent env s2 c"
    using c1(2) createdUnderParent_stable [OF _ v1 h2 m2 r(1)] by blast
  with c1 c2 have cm: "execLog s2 = execLog s @ (c1 @ c2)"
      "\<forall>c \<in> set (c1 @ c2). createdUnderParent env s2 c"
    by auto
  have hp: "\<exists>new. heap s2 = heap s @ new" using h1 h2 by simp
  have mm: "\<forall>key a. objectMap s key = Some a \<longrightarrow> objectMap s2 key = Some a" using m1 m2 by blast
  show ?thesis
    unfolding grows_def using hp mm r v2 new cm by (intro conjI) (simp, simp, simp, simp, blast, blast)
qed

lemma loadObject_grows:
  assumes "validPointers s" "loadObject env key s = (r, s1)"
  shows "grows env s s1 \<and> objectMap s1 = objectMap s
     \<and> (r = None \<longrightarrow> s1 = s \<and> key \<noteq> binPath env \<and> objectMap s key = None)
     \<and> (\<forall>p. r = Some p \<longrightarrow> p < length (heap s1)
            \<and> (key = binPath env \<longrightarrow> GDId (heap s1 ! p) = rootRemoteID s1)
            \<and> (key \<noteq> binPath env \<longrightarrow> objectMap s key = Some p \<and> s1 = s))"
  using assms
  by (auto simp: loadObject_def newObjectAt_def grows_def validPointers_def rootRemoteID_def Let_def
        less_Suc_eq split: if_splits)


lemma from_parent_locked:
  "isLocked s pObj \<Longrightarrow> NewObject_from_parent env loc pObj s = ((Some pObj, False, True, None), s)"
  by (simp add: NewObject_from_parent_def)

lemma from_parent_stat_error:
  "\<not> isLocked s pObj \<Longrightarrow> os_Stat env (length (statLog s)) loc = Inl e \<Longrightarrow>
   NewObject_from_parent env loc pObj s
     = ((None, False, False, Some e), s\<lparr>statLog := statLog s @ [loc]\<rparr>)"
  by (simp add: NewObject_from_parent_def osStat_def)

lemma from_parent_not_stored:
  "\<not> isLocked s pObj \<Longrightarrow> os_Stat env (length (statLog s)) loc = Inr wr \<Longrightarrow>
   objectMap s loc = Some b \<Longrightarrow>
   NewObject_from_parent env loc pObj s
     = ((Some pObj, False, True, None),
        s\<lparr>statLog := statLog s @ [loc],
          heap := heap s @ [placeholderFor (GDId (heap s ! pObj)) wr]\<rparr>)"
  by (simp add: NewObject_from_parent_def osStat_def newObjectAt_def storeObject_def
        placeholderFor_def Let_def)

lemma from_parent_backend_error:
  "\<not> isLocked s pObj \<Longrightarrow> os_Stat env (length (statLog s)) loc = Inr wr \<Longrightarrow>
   objectMap s loc = None \<Longrightarrow> pObj < length (heap s) \<Longrightarrow>
   fst (execCommand env (createCmd env loc wr (GDId (heap s ! pObj))) s) = Inl e \<Longrightarrow>
   NewObject_from_parent env loc pObj s
     = ((None, False, False, Some e),
        s\<lparr>statLog := statLog s @ [loc],
          heap := heap s @ [placeholderFor (GDId (heap s ! pObj)) wr],
          execLog := execLog s @ [createCmd env loc wr (GDId (heap s ! pObj))]\<rparr>)"
  by (auto simp: NewObject_from_parent_def osStat_def newObjectAt_def storeObject_def
        execCommand_def deleteObject_def placeholderFor_def createCmd_def Let_def nth_append
        fun_upd_idem split: if_splits)

lemma from_parent_created:
  "\<not> isLocked s pObj \<Longrightarrow> os_Stat env (length (statLog s)) loc = Inr wr \<Longrightarrow>
   objectMap s loc = None \<Longrightarrow> pObj < length (heap s) \<Longrightarrow>
   fst (execCommand env (createCmd env loc wr (GDId (heap s ! pObj))) s) = Inr nGDId \<Longrightarrow>
   NewObject_from_parent env loc pObj s
     = ((Some (length (heap s)), False, False, None),
        s\<lparr>statLog := statLog s @ [loc],
          heap := heap s @ [(placeholderFor (GDId (heap s ! pObj)) wr)\<lparr>GDId := nGDId\<rparr>],
          objectMap := (objectMap s)(loc \<mapsto> length (heap s)),
          execLog := execLog s @ [createCmd env loc wr (GDId (heap s ! pObj))]\<rparr>)"
  by (auto simp: NewObject_from_parent_def osStat_def newObjectAt_def storeObject_def
        execCommand_def updateStoredObject_def placeholderFor_def createCmd_def Let_def nth_append
        split: if_splits)

lemma from_parent_grows:
  assumes v: "validPointers s" and p: "pObj < length (heap s)"
    and par: "parentRemoteID env s loc = Some (GDId (heap s ! pObj))"
    and run: "NewObject_from_parent env loc pObj s = (r, s')"
  shows "grows env s s' \<and> (\<forall>q. r = (Some q, False, False, None) \<longrightarrow> objectMap s' loc = Some q)"
proof (cases "isLocked s pObj")
  case True
  with run v show ?thesis by (auto simp: from_parent_locked grows_refl)
next
  case unlocked: False
  have pid: "GDId (heap s ! pObj) \<noteq> []" using unlocked by (simp add: isLocked_def)
  have cu: "createdUnderParent env s (createCmd env loc wr (GDId (heap s ! pObj)))" for wr
    using par pid unfolding createdUnderParent_def by blast
  show ?thesis
  proof (cases "os_Stat env (length (statLog s)) loc")
    case (Inl e)
    with unlocked run v show ?thesis
      by (auto simp: from_parent_stat_error grows_def validPointers_def rootRemoteID_def)
  next
    case (Inr wr)
    show ?thesis
    proof (cases "objectMap s loc")
      case (Some b)
      with unlocked Inr run v show ?thesis
        by (auto simp: from_parent_not_stored grows_def validPointers_def rootRemoteID_def less_Suc_eq)
    next
      case None
      show ?thesis
      proof (cases "fst (execCommand env (createCmd env loc wr (GDId (heap s ! pObj))) s)")
        case (Inl e)
        have eq: "r = (None, False, False, Some e)"
          "s' = s\<lparr>statLog := statLog s @ [loc],
            heap := heap s @ [placeholderFor (GDId (heap s ! pObj)) wr],
            execLog := execLog s @ [createCmd env loc wr (GDId (heap s ! pObj))]\<rparr>"
          using from_parent_backend_error [OF unlocked Inr None p Inl] run by auto
        have "createdUnderParent env s' (createCmd env loc wr (GDId (heap s ! pObj)))"
          by (rule createdUnderParent_stable [OF cu v, where new = "[placeholderFor (GDId (heap s ! pObj)) wr]"])
             (simp_all add: eq(2) rootRemoteID_def)
        then show ?thesis
          using v unfolding eq(1) grows_def
          by (auto simp: eq(2) validPointers_def rootRemoteID_def less_Suc_eq)
      next
        case ok: (Inr nGDId)
        have eq: "r = (Some (length (heap s)), False, False, None)"
          "s' = s\<lparr>statLog := statLog s @ [loc],
          heap := heap s @ [(placeholderFor (GDId (heap s ! pObj)) wr)\<lparr>GDId := nGDId\<rparr>],
          objectMap := (objectMap s)(loc \<mapsto> length (heap s)),
          execLog := execLog s @ [createCmd env loc wr (GDId (heap s ! pObj))]\<rparr>"
          using from_parent_created [OF unlocked Inr None p ok] run by auto
        have dirne: "filepath_Dir env loc \<noteq> binPath env \<Longrightarrow> filepath_Dir env loc \<noteq> loc"
          using par None by (auto simp: parentRemoteID_def)
        have cu': "createdUnderParent env s' (createCmd env loc wr (GDId (heap s ! pObj)))"
          by (rule createdUnderParent_stable [OF cu v,
                where new = "[(placeholderFor (GDId (heap s ! pObj)) wr)\<lparr>GDId := nGDId\<rparr>]"])
             (use None in \<open>auto simp: eq(2) rootRemoteID_def\<close>)
        have "linked env s' loc (length (heap s))"
        proof (cases "filepath_Dir env loc = binPath env")
          case True
          with par pid show ?thesis
            unfolding eq linked_def parentRemoteID_def
            by (auto simp: placeholderFor_def rootRemoteID_def split: if_splits)
        next
          case False
          with par obtain z where z: "objectMap s (filepath_Dir env loc) = Some z"
              "GDId (heap s ! z) = GDId (heap s ! pObj)"
            by (auto simp: parentRemoteID_def)
          with v have "z < length (heap s)" by (auto simp: validPointers_def)
          with z False dirne pid show ?thesis
            unfolding eq linked_def parentRemoteID_def
            by (simp add: placeholderFor_def nth_append)
        qed
        then show ?thesis
          using v None cu' unfolding eq(1) grows_def
          by (auto simp: eq(2) validPointers_def rootRemoteID_def less_Suc_eq)
      qed
    qed
  qed
qed

lemma NewObject_grows_aux:
  assumes run: "NewObject env0 loc0 s0 = Some y0"
  shows "validPointers s0 \<longrightarrow> grows env0 s0 (snd y0)
       \<and> (\<forall>q. fst y0 = (Some q, False, False, None) \<longrightarrow>
              loc0 \<noteq> binPath env0 \<and> objectMap (snd y0) loc0 = Some q)"
proof (rule NewObject.raw_induct
    [where P = "\<lambda>env loc s y. validPointers s \<longrightarrow> grows env s (snd y)
       \<and> (\<forall>q. fst y = (Some q, False, False, None) \<longrightarrow>
              loc \<noteq> binPath env \<and> objectMap (snd y) loc = Some q)", OF _ run], goal_cases)
  case (1 rec env loc s y)
  note IH = "1"(1) and body = "1"(2)
  show ?case
  proof
  assume vs: "validPointers s"
  obtain r1 s1 where l1: "loadObject env loc s = (r1, s1)" by (cases "loadObject env loc s")
  note g1 = loadObject_grows [OF vs l1]
  show "grows env s (snd y)
       \<and> (\<forall>q. fst y = (Some q, False, False, None) \<longrightarrow>
              loc \<noteq> binPath env \<and> objectMap (snd y) loc = Some q)"
  proof (cases r1)
    case (Some eObj)
    with l1 body g1 show ?thesis by auto
  next
    case None
    with g1 have s1: "s1 = s" and nroot: "loc \<noteq> binPath env" by auto
    obtain r2 s2 where l2: "loadObject env (filepath_Dir env loc) s = (r2, s2)"
      by (cases "loadObject env (filepath_Dir env loc) s")
    note g2 = loadObject_grows [OF vs l2]
    show ?thesis
    proof (cases r2)
      case (Some pObj)
      with l1 l2 None s1 body have y: "y = NewObject_from_parent env loc pObj s2" by simp
      have v2: "validPointers s2" using g2 by (simp add: grows_def)
      have p: "pObj < length (heap s2)" using g2 Some by simp
      have par: "parentRemoteID env s2 loc = Some (GDId (heap s2 ! pObj))"
        using g2 Some by (auto simp: parentRemoteID_def)
      from from_parent_grows [OF v2 p par, of "fst y" "snd y"] y
      have "grows env s2 (snd y)
          \<and> (\<forall>q. fst y = (Some q, False, False, None) \<longrightarrow> objectMap (snd y) loc = Some q)"
        by simp
      with g2 nroot show ?thesis by (auto intro: grows_trans)
    next
      case r2None: None
      with g2 have s2: "s2 = s" and dnroot: "filepath_Dir env loc \<noteq> binPath env" by auto
      from l1 l2 None r2None s1 s2 body
      obtain pObj loaded locked err s3 where
        rc: "rec env (filepath_Dir env loc) s = Some ((pObj, loaded, locked, err), s3)"
        and rest: "(if err \<noteq> None then Some ((None, False, False, err), s3)
                    else if loaded \<or> locked then Some ((pObj, loaded, locked, None), s3)
                    else (case pObj of None \<Rightarrow> None
                          | Some p \<Rightarrow> Some (NewObject_from_parent env loc p s3))) = Some y"
        by (auto simp: bind_eq_Some_conv)
      from IH [OF rc] vs
      have g3: "grows env s s3"
        and res3: "\<forall>q. pObj = Some q \<and> \<not> loaded \<and> \<not> locked \<and> err = None \<longrightarrow>
            objectMap s3 (filepath_Dir env loc) = Some q"
        by auto
      show ?thesis
      proof (cases "err \<noteq> None \<or> loaded \<or> locked")
        case True
        with rest g3 show ?thesis by (auto split: if_splits)
      next
        case False
        with rest obtain p where pO: "pObj = Some p" and y: "y = NewObject_from_parent env loc p s3"
          by (auto split: option.splits)
        have v3: "validPointers s3" using g3 by (simp add: grows_def)
        from res3 pO False have m3: "objectMap s3 (filepath_Dir env loc) = Some p" by auto
        with v3 have p: "p < length (heap s3)" by (auto simp: validPointers_def)
        have par: "parentRemoteID env s3 loc = Some (GDId (heap s3 ! p))"
          using m3 dnroot by (simp add: parentRemoteID_def)
        from from_parent_grows [OF v3 p par, of "fst y" "snd y"] y
        have "grows env s3 (snd y)
          \<and> (\<forall>q. fst y = (Some q, False, False, None) \<longrightarrow> objectMap (snd y) loc = Some q)"
          by simp
        with g3 nroot show ?thesis by (auto intro: grows_trans)
      qed
    qed
  qed
  qed
qed

lemma unixDir_b: "unixDir ''/sync/a/b'' = ''/sync/a''" by (simp add: unixDir_def)
lemma unixDir_a: "unixDir ''/sync/a'' = ''/sync''" by (simp add: unixDir_def)
lemma unixBase_b: "unixBase ''/sync/a/b'' = ''b''" by (simp add: unixBase_def)
lemma unixBase_a: "unixBase ''/sync/a'' = ''a''" by (simp add: unixBase_def)

lemma tree_run:
  "NewObject (testEnv treeStat idRun) ''/sync/a/b'' emptyManager
     = Some ((Some 2, False, False, None), treeManager)"
  apply (subst NewObject.simps)
  apply (subst NewObject.simps)
  apply (simp add: loadObject_def newObjectAt_def NewObject_from_parent_def isLocked_def osStat_def
       storeObject_def execCommand_def updateStoredObject_def createArgs_def
       testEnv_def treeStat_def idRun_def emptyManager_def treeManager_def
       unixDir_a unixDir_b unixBase_a unixBase_b Let_def numeral_2_eq_2)
  done

text \<open>
  C3: after a run of \<open>NewObject\<close> that returns, every entry that the map holds and did not
  hold before has a non-empty \<open>GDPId\<close>, equal to the remote identifier that the store (or
  the root sentinel) holds for its parent path; every command issued during the run is a
  creation command whose parent argument is such an identifier, not empty; the entries
  held before are still there, with the same objects, so the identifiers read at
  insertion are those of the final state. With a locked parent, lines 120-122 return
  without a stat, an insertion or a command.
\<close>

theorem NewObject_parent_before_child:
  assumes "NewObject env loc s = Some (r, s')" and "validPointers s"
  shows "(\<forall>key a. objectMap s key = None \<and> objectMap s' key = Some a \<longrightarrow>
            GDPId (heap s' ! a) \<noteq> [] \<and> parentRemoteID env s' key = Some (GDPId (heap s' ! a)))
       \<and> (\<exists>cmds. execLog s' = execLog s @ cmds \<and> (\<forall>c \<in> set cmds. createdUnderParent env s' c))
       \<and> (\<forall>key a. objectMap s key = Some a \<longrightarrow> objectMap s' key = Some a \<and> heap s' ! a = heap s ! a)
       \<and> (\<forall>pObj t. isLocked t pObj \<longrightarrow>
             NewObject_from_parent env loc pObj t = ((Some pObj, False, True, None), t))"
proof -
  from NewObject_grows_aux [OF assms(1)] assms(2) have g: "grows env s s'" by simp
  then obtain new where h: "heap s' = heap s @ new" by (auto simp: grows_def)
  have old: "objectMap s key = Some a \<Longrightarrow> objectMap s' key = Some a \<and> heap s' ! a = heap s ! a" for key a
    using g h assms(2) by (auto simp: grows_def validPointers_def nth_append)
  have new: "objectMap s key = None \<and> objectMap s' key = Some a \<Longrightarrow>
            GDPId (heap s' ! a) \<noteq> [] \<and> parentRemoteID env s' key = Some (GDPId (heap s' ! a))" for key a
    using g unfolding grows_def linked_def by blast
  have cm: "\<exists>cmds. execLog s' = execLog s @ cmds \<and> (\<forall>c \<in> set cmds. createdUnderParent env s' c)"
    using g unfolding grows_def by blast
  show ?thesis using old new cm from_parent_locked by blast
qed

lemma validPointers_emptyManager: "validPointers emptyManager"
  by (simp add: validPointers_def emptyManager_def)

theorem NewObject_parent_before_child_witness:
  "NewObject (testEnv treeStat idRun) ''/sync/a/b'' emptyManager
       = Some ((Some 2, False, False, None), treeManager)
   \<and> validPointers emptyManager
   \<and> objectMap emptyManager ''/sync/a/b'' = None \<and> objectMap treeManager ''/sync/a/b'' = Some 2
   \<and> GDPId (heap treeManager ! 2) = ''idA''
   \<and> parentRemoteID (testEnv treeStat idRun) treeManager ''/sync/a/b'' = Some ''idA''
   \<and> objectMap emptyManager ''/sync/a'' = None \<and> objectMap treeManager ''/sync/a'' = Some 1
   \<and> GDPId (heap treeManager ! 1) = ''.''
   \<and> parentRemoteID (testEnv treeStat idRun) treeManager ''/sync/a'' = Some ''.''
   \<and> createdUnderParent (testEnv treeStat idRun) treeManager (execLog treeManager ! 0)
   \<and> createdUnderParent (testEnv treeStat idRun) treeManager (execLog treeManager ! 1)"
proof -
  note main = NewObject_parent_before_child [OF tree_run validPointers_emptyManager]
  note fresh = main [THEN conjunct1, rule_format]
  note cmds = main [THEN conjunct2, THEN conjunct1]
  have m: "objectMap emptyManager ''/sync/a/b'' = None" "objectMap treeManager ''/sync/a/b'' = Some 2"
    "objectMap emptyManager ''/sync/a'' = None" "objectMap treeManager ''/sync/a'' = Some 1"
    by (simp_all add: emptyManager_def treeManager_def)
  have g: "GDPId (heap treeManager ! 2) = ''idA''" "GDPId (heap treeManager ! 1) = ''.''"
    by (simp_all add: treeManager_def)
  have e: "execLog emptyManager = []" by (simp add: emptyManager_def)
  have p2: "parentRemoteID (testEnv treeStat idRun) treeManager ''/sync/a/b'' = Some ''idA''"
    using fresh [of "''/sync/a/b''" 2] m(1,2) g(1) by simp
  have p1: "parentRemoteID (testEnv treeStat idRun) treeManager ''/sync/a'' = Some ''.''"
    using fresh [of "''/sync/a''" 1] m(3,4) g(2) by simp
  have c: "\<forall>c \<in> set (execLog treeManager). createdUnderParent (testEnv treeStat idRun) treeManager c"
    using cmds e by auto
  have c0: "createdUnderParent (testEnv treeStat idRun) treeManager (execLog treeManager ! 0)"
    and c1: "createdUnderParent (testEnv treeStat idRun) treeManager (execLog treeManager ! 1)"
    using c by (simp_all add: treeManager_def)
  show ?thesis
    by (intro conjI tree_run validPointers_emptyManager m g p1 p2 c0 c1)
qed

text \<open>
  C5: when the placeholder for \<open>loc\<close> has been inserted and the creation command fails with
  \<open>e\<close>, the resolver returns \<open>(nil, false, false, e)\<close> and the map is the one before the
  attempt, without an entry for \<open>loc\<close>; only the logs and the unreferenced placeholder
  remain. So it is for \<open>NewObject\<close> on a path whose parent the store holds.
\<close>

theorem NewObject_creation_failure:
  assumes "\<not> isLocked s pObj" and "pObj < length (heap s)"
    and "os_Stat env (length (statLog s)) loc = Inr wr"
    and "objectMap s loc = None"
    and "\<not> TestMode (cfg s)"
    and "cmd_Run env (length (execLog s)) (createCmd env loc wr (GDId (heap s ! pObj))) = Inl e"
    and "s' = s\<lparr>statLog := statLog s @ [loc],
                 heap := heap s @ [placeholderFor (GDId (heap s ! pObj)) wr],
                 execLog := execLog s @ [createCmd env loc wr (GDId (heap s ! pObj))]\<rparr>"
  shows "NewObject_from_parent env loc pObj s = ((None, False, False, Some e), s')
       \<and> objectMap s' = objectMap s \<and> objectMap s' loc = None
       \<and> (loc \<noteq> binPath env \<and> filepath_Dir env loc \<noteq> binPath env
            \<and> objectMap s (filepath_Dir env loc) = Some pObj \<longrightarrow>
          NewObject env loc s = Some ((None, False, False, Some e), s'))"
proof -
  have ex: "fst (execCommand env (createCmd env loc wr (GDId (heap s ! pObj))) s) = Inl e"
    using assms(5,6) by (simp add: execCommand_def)
  have t: "NewObject_from_parent env loc pObj s = ((None, False, False, Some e), s')"
    using from_parent_backend_error [OF assms(1,3,4,2) ex] assms(7) by simp
  have n: "loc \<noteq> binPath env \<and> filepath_Dir env loc \<noteq> binPath env
            \<and> objectMap s (filepath_Dir env loc) = Some pObj \<longrightarrow>
          NewObject env loc s = Some ((None, False, False, Some e), s')"
    using t assms(4) by (subst NewObject.simps) (simp add: loadObject_def)
  show ?thesis using t n assms(4,7) by simp
qed

lemma unixDir_c: "unixDir ''/sync/a/c'' = ''/sync/a''" by (simp add: unixDir_def)
lemma unixBase_c: "unixBase ''/sync/a/c'' = ''c''" by (simp add: unixBase_def)

theorem NewObject_creation_failure_witness:
  "\<not> isLocked treeManager 1 \<and> 1 < length (heap treeManager)
   \<and> objectMap treeManager ''/sync/a/c'' = None \<and> \<not> TestMode (cfg treeManager)
   \<and> objectMap treeManager (filepath_Dir (testEnv failingStat failingRun) ''/sync/a/c'') = Some 1
   \<and> NewObject_from_parent (testEnv failingStat failingRun) ''/sync/a/c'' 1 treeManager
        = ((None, False, False, Some ''quota exceeded''), afterFailure)
   \<and> NewObject (testEnv failingStat failingRun) ''/sync/a/c'' treeManager
        = Some ((None, False, False, Some ''quota exceeded''), afterFailure)
   \<and> objectMap afterFailure = objectMap treeManager \<and> objectMap afterFailure ''/sync/a/c'' = None"
  using NewObject_creation_failure [of treeManager 1 "testEnv failingStat failingRun" "''/sync/a/c''"
          "\<lparr>fi_IsDir = False, fi_ModTime = 60, fi_Size = 9\<rparr>" "''quota exceeded''" afterFailure]
  by (simp add: treeManager_def afterFailure_def testEnv_def failingStat_def failingRun_def
        isLocked_def createCmd_def createArgs_def placeholderFor_def unixDir_c unixBase_c)

lemma fold_delete_keys:
  "fold (\<lambda>loc m. m(loc := None)) locs m = (\<lambda>k. if k \<in> set locs then None else m k)"
  by (induction locs arbitrary: m) (auto simp: fun_eq_iff)

lemma fold_DeleteObjectGDrive:
  assumes "\<forall>loc \<in> set order. \<exists>ob. dq loc = Some (Some ob)"
  shows "fold (\<lambda>loc r. case dq loc of None \<Rightarrow> r
                         | Some object \<Rightarrow> Option.bind r (DeleteObjectGDrive env loc object))
              order (Some s)
       = Some (s\<lparr>execLog := execLog s
                     @ map (\<lambda>loc. [''gdrive'', ''files'', ''delete'', GDId (the (the (dq loc))),
                                     ''--recursive'']) order,
                  objectMap := (\<lambda>k. if k \<in> set order then None else objectMap s k)\<rparr>)"
  using assms
proof (induction order arbitrary: s)
  case Nil
  then show ?case by simp
next
  case (Cons loc order)
  then obtain ob where ob: "dq loc = Some (Some ob)" by auto
  have step: "DeleteObjectGDrive env loc (Some ob) s
      = Some (s\<lparr>execLog := execLog s @ [[''gdrive'', ''files'', ''delete'', GDId ob, ''--recursive'']],
                 objectMap := (objectMap s)(loc := None)\<rparr>)"
    by (simp add: DeleteObjectGDrive_def deleteCmd_def execCommand_def deleteObject_def Let_def
          split: prod.splits)
  from Cons have rest: "\<forall>l \<in> set order. \<exists>ob. dq l = Some (Some ob)" by simp
  show ?case
    by (simp add: ob step Cons.IH [OF rest] fun_eq_iff)
qed

text \<open>
  When the snapshot is a faithful copy of the store and the second walk completes, the
  deletion phase issues, for the keys that \<open>range\<close> yields, one recursive-delete command
  each on the entry's \<open>GDId\<close>, in the order of the iteration, and nothing else; those
  keys are the tracked paths that the walk did not visit, and afterwards the map holds
  exactly the entries of the visited paths. The answers of the backend do not occur in
  the result.
\<close>

lemma deletionPhase_faithful_copy:
  assumes "CopyObjects env s = storedValue s"
    and "distinct order"
    and "set order = dom (fold (\<lambda>loc m. m(loc := None)) locs (the (CopyObjects env s)))"
  shows "deletionPhase env (Inr locs) order s =
           Some (None, s\<lparr>execLog := execLog s
                            @ map (\<lambda>loc. [''gdrive'', ''files'', ''delete'',
                                            GDId (the (objects s loc)), ''--recursive'']) order,
                           objectMap := (\<lambda>k. if k \<in> set locs then objectMap s k else None)\<rparr>)"
    and "set order = dom (objectMap s) - set locs"
proof -
  define dq where "dq = fold (\<lambda>loc m. m(loc := None)) locs (\<lambda>key. map_option Some (objects s key))"
  have dq: "dq loc = (if loc \<in> set locs then None else map_option Some (objects s loc))" for loc
    unfolding dq_def by (simp add: fold_delete_keys)
  from assms(1,3) have ord: "set order = dom dq"
    by (simp add: storedValue_def dq_def)
  show absent: "set order = dom (objectMap s) - set locs"
    unfolding ord by (auto simp: dq objects_def dom_def split: if_splits)
  have inobj: "loc \<in> set order \<Longrightarrow> loc \<notin> set locs \<and> (\<exists>ob. objects s loc = Some ob)" for loc
    using absent by (auto simp: objects_def)
  have all: "\<forall>loc \<in> set order. \<exists>ob. dq loc = Some (Some ob)"
    using inobj by (auto simp: dq)
  have "the (the (dq loc)) = the (objects s loc)" if "loc \<in> set order" for loc
    using inobj [OF that] by (auto simp: dq)
  then have same: "map (\<lambda>loc. [''gdrive'', ''files'', ''delete'', GDId (the (the (dq loc))), ''--recursive'']) order
      = map (\<lambda>loc. [''gdrive'', ''files'', ''delete'', GDId (the (objects s loc)), ''--recursive'']) order"
    by simp
  have m: "(\<lambda>k. if k \<in> set order then None else objectMap s k)
      = (\<lambda>k. if k \<in> set locs then objectMap s k else None)"
    using absent by (auto simp: fun_eq_iff)
  show "deletionPhase env (Inr locs) order s =
           Some (None, s\<lparr>execLog := execLog s
                            @ map (\<lambda>loc. [''gdrive'', ''files'', ''delete'',
                                            GDId (the (objects s loc)), ''--recursive'']) order,
                           objectMap := (\<lambda>k. if k \<in> set locs then objectMap s k else None)\<rparr>)"
    unfolding deletionPhase_def
    by (simp add: assms(1) storedValue_def Let_def dq_def [symmetric]
          fold_DeleteObjectGDrive [OF all] same m)
qed

lemma coercingEnv_copy:
  "json_Marshal coercingEnv (storedValue byteManager) = Inr byteDocument"
  "json_Unmarshal coercingEnv byteDocument = (Members [(coercedName, Some byteObject)], None)"
  "CopyObjects coercingEnv byteManager = Some [coercedName \<mapsto> Some byteObject]"
  by (simp_all add: CopyObjects_def storedValue_def objects_def decodedMap_def coercingEnv_def
        testEnv_def byteManager_def)

text \<open>
  C8 fails for a tracked path whose name is not valid UTF-8. The store tracks the file
  named by the byte \<open>0xFF\<close> under \<open>/sync\<close>, with the remote identifier \<open>idF\<close>, and the
  second walk visits \<open>/sync\<close> only. The snapshot of \<open>CopyObjects\<close> has gone through
  the JSON text and holds the entry under the coerced key, which \<open>range\<close> yields; the
  deletion phase issues the recursive-delete command on \<open>idF\<close> and then calls
  \<open>deleteObject\<close> with the coerced key: the store still tracks the path.
\<close>

theorem deletionPhase_coerced_key:
  "objects byteManager byteName = Some \<lparr>GDId = ''idF'', GDPId = ''.'', LastMod = 5, Size = 3\<rparr>
   \<and> byteName \<notin> set [''/sync'']
   \<and> json_Marshal coercingEnv (storedValue byteManager) = Inr byteDocument
   \<and> json_Unmarshal coercingEnv byteDocument = (Members [(coercedName, Some byteObject)], None)
   \<and> fold (\<lambda>loc m. m(loc := None)) [''/sync''] (the (CopyObjects coercingEnv byteManager))
        = [coercedName \<mapsto> Some byteObject]
   \<and> coercedName \<noteq> byteName
   \<and> deletionPhase coercingEnv (Inr [''/sync'']) [coercedName] byteManager
        = Some (None, byteManager\<lparr>execLog := [[''gdrive'', ''files'', ''delete'', ''idF'', ''--recursive'']]\<rparr>)
   \<and> objectMap (byteManager\<lparr>execLog := [[''gdrive'', ''files'', ''delete'', ''idF'', ''--recursive'']]\<rparr>)
        byteName = Some 0"
proof -
  have names: "coercedName \<noteq> byteName" "coercedName \<noteq> ''/sync''" "byteName \<noteq> ''/sync''"
    by (simp_all add: coercedName_def byteName_def)
  have q: "fold (\<lambda>loc m. m(loc := None)) [''/sync''] (the (CopyObjects coercingEnv byteManager))
        = [coercedName \<mapsto> Some byteObject]"
    using names by (simp add: coercingEnv_copy fun_eq_iff)
  have st: "byteManager\<lparr>objectMap := (objectMap byteManager)(coercedName := None)\<rparr> = byteManager"
    using names by (simp add: byteManager_def)
  have run: "deletionPhase coercingEnv (Inr [''/sync'']) [coercedName] byteManager
        = Some (None, byteManager\<lparr>execLog := [[''gdrive'', ''files'', ''delete'', ''idF'', ''--recursive'']]\<rparr>)"
    using names
    by (simp add: deletionPhase_def coercingEnv_copy Let_def)
       (simp add: DeleteObjectGDrive_def deleteCmd_def execCommand_def deleteObject_def
          byteObject_def byteManager_def)
  show ?thesis
    using names q run coercingEnv_copy(1,2)
    by (simp add: objects_def byteManager_def byteObject_def)
qed

lemma loadEntries_objects:
  assumes "loadEntries kvs (m0, h0) = (m, h)"
    and "\<forall>k a. m0 k = Some (Some a) \<longrightarrow> a < length h0"
  shows "(\<lambda>k. map_option (map_option (\<lambda>a. h ! a)) (m k))
           = fold (\<lambda>(k, v) mm. mm(k \<mapsto> v)) kvs (\<lambda>k. map_option (map_option (\<lambda>a. h0 ! a)) (m0 k))
         \<and> (\<forall>k a. m k = Some (Some a) \<longrightarrow> a < length h)
         \<and> dom m = dom m0 \<union> set (map fst kvs)"
  using assms
proof (induction kvs arbitrary: m0 h0)
  case Nil
  then show ?case by simp
next
  case (Cons kv kvs)
  obtain k v where kv: "kv = (k, v)" by (cases kv)
  show ?case
  proof (cases v)
    case None
    from Cons.prems(1) kv None have run: "loadEntries kvs (m0(k \<mapsto> None), h0) = (m, h)" by simp
    have valid: "\<forall>k' a. (m0(k \<mapsto> None)) k' = Some (Some a) \<longrightarrow> a < length h0"
      using Cons.prems(2) by auto
    have start: "(\<lambda>k'. map_option (map_option (\<lambda>a. h0 ! a)) ((m0(k \<mapsto> None)) k'))
        = (\<lambda>k'. map_option (map_option (\<lambda>a. h0 ! a)) (m0 k'))(k \<mapsto> None)"
      by (auto simp: fun_eq_iff)
    from Cons.IH [OF run valid]
    have "(\<lambda>k. map_option (map_option (\<lambda>a. h ! a)) (m k))
             = fold (\<lambda>(k, v) mm. mm(k \<mapsto> v)) kvs
                 ((\<lambda>k'. map_option (map_option (\<lambda>a. h0 ! a)) (m0 k'))(k \<mapsto> None))
           \<and> (\<forall>k a. m k = Some (Some a) \<longrightarrow> a < length h)
           \<and> dom m = dom (m0(k \<mapsto> None)) \<union> set (map fst kvs)"
      unfolding start .
    then show ?thesis unfolding kv None fold_simps o_apply split_conv by auto
  next
    case (Some ob)
    from Cons.prems(1) kv Some
    have run: "loadEntries kvs (m0(k \<mapsto> Some (length h0)), h0 @ [ob]) = (m, h)" by simp
    have valid: "\<forall>k' a. (m0(k \<mapsto> Some (length h0))) k' = Some (Some a) \<longrightarrow> a < length (h0 @ [ob])"
      using Cons.prems(2) by (auto simp: less_Suc_eq)
    have start: "(\<lambda>k'. map_option (map_option (\<lambda>a. (h0 @ [ob]) ! a)) ((m0(k \<mapsto> Some (length h0))) k'))
        = (\<lambda>k'. map_option (map_option (\<lambda>a. h0 ! a)) (m0 k'))(k \<mapsto> Some ob)"
      using Cons.prems(2)
      by (auto simp: fun_eq_iff nth_append map_option_case split: option.splits)
    from Cons.IH [OF run valid]
    have "(\<lambda>k. map_option (map_option (\<lambda>a. h ! a)) (m k))
             = fold (\<lambda>(k, v) mm. mm(k \<mapsto> v)) kvs
                 ((\<lambda>k'. map_option (map_option (\<lambda>a. h0 ! a)) (m0 k'))(k \<mapsto> Some ob))
           \<and> (\<forall>k a. m k = Some (Some a) \<longrightarrow> a < length h)
           \<and> dom m = dom (m0(k \<mapsto> Some (length h0))) \<union> set (map fst kvs)"
      unfolding start .
    then show ?thesis unfolding kv Some fold_simps o_apply split_conv by auto
  qed
qed

text \<open>
  The repository's part of the round trip is lossless: when \<open>json.MarshalIndent\<close> gives
  a non-empty text for the store's mapping that \<open>json.Unmarshal\<close> decodes without error
  to the same mapping, and the file operations succeed, \<open>SaveToFile\<close> succeeds and
  \<open>NewObjectManager\<close>, started on the files it leaves, returns a manager whose mapping
  has the same keys and, for every key, the same \<open>Object\<close>.
\<close>

lemma SaveToFile_reload_lossless:
  assumes "json_Marshal env (storedValue s) = Inr data" and "data \<noteq> []"
    and "json_Unmarshal env data = (Members kvs, None)"
    and "decodedMap (Members kvs) = storedValue s"
    and "os_WriteFile env (ObjectMapFilePath s) data = None"
    and "ObjectMapFilePath s = filepath_Join env (binPath env) ''object_map.json''"
    and "os_OpenFile env (ObjectMapFilePath s) = None" and "io_ReadAll env (ObjectMapFilePath s) = None"
  shows "\<exists>s2. SaveToFile env s = (None, s\<lparr>files := (files s)(ObjectMapFilePath s \<mapsto> data)\<rparr>)
            \<and> NewObjectManager env c ((files s)(ObjectMapFilePath s \<mapsto> data)) = Inr (Some s2)
            \<and> objects s2 = objects s \<and> dom (objectMap s2) = dom (objectMap s)
            \<and> cfg s2 = c"
proof -
  have copy: "CopyObjects env s = storedValue s"
    by (simp add: CopyObjects_def assms(1,3,4))
  have save: "SaveToFile env s = (None, s\<lparr>files := (files s)(ObjectMapFilePath s \<mapsto> data)\<rparr>)"
    by (simp add: SaveToFile_def copy assms(1,5))
  have rd: "readObjectMap env (ObjectMapFilePath s) ((files s)(ObjectMapFilePath s \<mapsto> data))
      = (Inr data, (files s)(ObjectMapFilePath s \<mapsto> data))"
    using assms(2) by (simp add: readObjectMap_def assms(7,8))
  obtain m h where le: "loadEntries kvs (Map.empty, []) = (m, h)"
    by (cases "loadEntries kvs (Map.empty, [])")
  from loadEntries_objects [OF le] assms(4)
  have ob: "(\<lambda>k. map_option (map_option (\<lambda>a. h ! a)) (m k)) = (\<lambda>key. map_option Some (objects s key))"
    and dm: "dom m = set (map fst kvs)"
    by (simp_all add: decodedMap_def storedValue_def)
  have nonil: "m k \<noteq> Some None" for k
  proof
    assume "m k = Some None"
    with fun_cong [OF ob, of k] show False by (cases "objects s k") simp_all
  qed
  then have chk: "\<not> list_ex (\<lambda>k. m k = Some None) (map fst kvs)"
    by (simp add: list_ex_iff)
  define s2 where "s2 = \<lparr>cfg = c, ObjectMapFilePath = ObjectMapFilePath s,
                            objectMap = (\<lambda>k. case m k of Some (Some a) \<Rightarrow> Some a | _ \<Rightarrow> None),
                            heap = h, execLog = [], statLog = [],
                            files = (files s)(ObjectMapFilePath s \<mapsto> data)\<rparr>"
  have new: "NewObjectManager env c ((files s)(ObjectMapFilePath s \<mapsto> data)) = Inr (Some s2)"
    using rd chk by (simp add: NewObjectManager_def assms(6) [symmetric] assms(3) le s2_def Let_def)
  have eq: "objects s2 k = objects s k" for k
    using fun_cong [OF ob, of k] nonil [of k]
    by (cases "m k"; cases "objects s k") (auto simp: objects_def s2_def split: option.splits)
  then have eq': "objects s2 = objects s" by (simp add: fun_eq_iff)
  have "dom (objects s2) = dom (objects s)" using eq' by simp
  then have dm: "dom (objectMap s2) = dom (objectMap s)"
    by (simp add: objects_def dom_def)
  show ?thesis using save new eq' dm by (auto simp: s2_def)
qed

lemma coercingEnv_save:
  "json_Marshal coercingEnv (Some [coercedName \<mapsto> Some byteObject]) = Inr coercedDocument"
  "json_Unmarshal coercingEnv coercedDocument = (Members [(coercedName, Some byteObject)], None)"
  "coercedDocument \<noteq> []"
  by (simp_all add: coercingEnv_def testEnv_def coercedName_def byteName_def coercedDocument_def
        memberDocument_def)

text \<open>
  C9 fails for the same store: \<open>SaveToFile\<close> succeeds and writes the document of the
  coerced copy; \<open>NewObjectManager\<close>, started on the files it leaves, returns a manager
  that has no entry for the stored key and an entry for another key, the coerced one.
\<close>

theorem SaveToFile_reload_coerced_key:
  "objectMap byteManager byteName = Some 0
   \<and> dom (objectMap byteManager) = {byteName}
   \<and> SaveToFile coercingEnv byteManager
        = (None, byteManager\<lparr>files := [''/sync/object_map.json'' \<mapsto> coercedDocument]\<rparr>)
   \<and> (\<exists>s2. NewObjectManager coercingEnv (cfg byteManager) [''/sync/object_map.json'' \<mapsto> coercedDocument]
              = Inr (Some s2)
          \<and> objectMap s2 byteName = None
          \<and> objectMap s2 coercedName = Some 0
          \<and> heap s2 = [\<lparr>GDId = ''idF'', GDPId = ''.'', LastMod = 5, Size = 3\<rparr>]
          \<and> dom (objectMap s2) = {coercedName})
   \<and> coercedName \<noteq> byteName"
proof -
  have names: "coercedName \<noteq> byteName"
    by (simp add: coercedName_def byteName_def)
  have save: "SaveToFile coercingEnv byteManager
        = (None, byteManager\<lparr>files := [''/sync/object_map.json'' \<mapsto> coercedDocument]\<rparr>)"
    by (simp add: SaveToFile_def coercingEnv_copy(3) coercingEnv_save(1))
       (simp add: coercingEnv_def testEnv_def byteManager_def)
  have rd: "readObjectMap coercingEnv ''/sync/object_map.json'' [''/sync/object_map.json'' \<mapsto> coercedDocument]
      = (Inr coercedDocument, [''/sync/object_map.json'' \<mapsto> coercedDocument])"
    using coercingEnv_save(3) by (simp add: readObjectMap_def coercingEnv_def testEnv_def)
  have path: "filepath_Join coercingEnv (binPath coercingEnv) ''object_map.json'' = ''/sync/object_map.json''"
    by (simp add: coercingEnv_def testEnv_def)
  have new: "\<exists>s2. NewObjectManager coercingEnv (cfg byteManager) [''/sync/object_map.json'' \<mapsto> coercedDocument]
              = Inr (Some s2)
          \<and> objectMap s2 byteName = None
          \<and> objectMap s2 coercedName = Some 0
          \<and> heap s2 = [\<lparr>GDId = ''idF'', GDPId = ''.'', LastMod = 5, Size = 3\<rparr>]
          \<and> dom (objectMap s2) = {coercedName}"
    using names
    by (auto simp: NewObjectManager_def path rd coercingEnv_save(2) Let_def byteObject_def dom_def
          split: if_splits)
  have d: "dom (objectMap byteManager) = {byteName}" "objectMap byteManager byteName = Some 0"
    by (simp_all add: byteManager_def)
  show ?thesis using names save new d by blast
qed

lemmas step_defs = tstep_def acquire_def RLock_def RUnlock_def Lock_def Unlock_def
  loadObject_def newObjectAt_def isLocked_def osStat_def storeObject_def updateStoredObject_def
  deleteObject_def placeholderFor_def createCmd_def createArgs_def

lemma race_run:
  "runSchedule (testEnv treeStat idRun)
      [0, 0, 0, 0, 1, 1, 1, 1, 1, 1, 1, 1, 1, 1, 1, 1, 1, 1, 0, 0, 0, 0, 0, 0]
      (startWorld rootedManager [''/sync/a/b'', ''/sync/a''])
   = Some \<lparr>om = afterRace, rwmu = \<lparr>readers = 0, writer = False\<rparr>,
           threads = [Finished (Some 1, True, False, None), Finished (Some 1, False, False, None)]\<rparr>"
  by (simp add: step_defs startWorld_def rootedManager_def emptyManager_def afterRace_def
        testEnv_def treeStat_def idRun_def unixDir_a unixDir_b unixBase_a unixBase_b)

text \<open>
  C4, at a schedule of two goroutines: the recursive call for the parent \<open>/sync/a\<close> reports
  \<open>loaded = true, locked = false\<close> because the other goroutine has created it in between;
  \<open>NewObject\<close> for \<open>/sync/a/b\<close> returns that answer unchanged, with the parent's object,
  and has made no stat, insertion or command for \<open>/sync/a/b\<close>. \<open>Sync\<close> then takes the
  parent's object for the file's, issues an update of the parent's remote object and
  overwrites the parent's \<open>LastMod\<close> and \<open>Size\<close>; the task does not keep the entry for
  the next pass, and \<open>/sync/a/b\<close> has no entry.
\<close>

theorem Sync_parent_existed_not_retried:
  "runSchedule (testEnv treeStat idRun)
      [0, 0, 0, 0, 1, 1, 1, 1, 1, 1, 1, 1, 1, 1, 1, 1, 1, 1, 0, 0, 0, 0, 0, 0]
      (startWorld rootedManager [''/sync/a/b'', ''/sync/a''])
     = Some \<lparr>om = afterRace, rwmu = \<lparr>readers = 0, writer = False\<rparr>,
             threads = [Finished (Some 1, True, False, None), Finished (Some 1, False, False, None)]\<rparr>
   \<and> objectMap afterRace ''/sync/a/b'' = None
   \<and> objectMap afterRace ''/sync/a'' = Some 1
   \<and> Sync_after (testEnv treeStat idRun) newFile ((Some 1, True, False, None), afterRace)
        = Some ((False, True, False, None), afterSync)
   \<and> syncTask_after newFile [] ((False, True, False, None), afterSync) = (None, [], afterSync)
   \<and> objectMap afterSync ''/sync/a/b'' = None
   \<and> heap afterSync ! 1 = \<lparr>GDId = ''idA'', GDPId = ''.'', LastMod = 50, Size = 7\<rparr>"
proof -
  have "Sync_after (testEnv treeStat idRun) newFile ((Some 1, True, False, None), afterRace)
        = Some ((False, True, False, None), afterSync)"
    by (simp add: Sync_after_def UpdateObjectIfModTimeChanged_def execCommand_def updateCmd_def
          updateStoredObject_def newFile_def afterRace_def afterSync_def rootedManager_def
          emptyManager_def testEnv_def idRun_def unixDir_b unixBase_b)
  moreover have "syncTask_after newFile [] ((False, True, False, None), afterSync) = (None, [], afterSync)"
    by (simp add: syncTask_after_def)
  moreover have "objectMap afterRace ''/sync/a/b'' = None" "objectMap afterRace ''/sync/a'' = Some 1"
    "objectMap afterSync ''/sync/a/b'' = None"
    "heap afterSync ! 1 = \<lparr>GDId = ''idA'', GDPId = ''.'', LastMod = 50, Size = 7\<rparr>"
    by (simp_all add: afterRace_def afterSync_def)
  ultimately show ?thesis using race_run by simp
qed

lemma sum_list_map_update:
  "i < length xs \<Longrightarrow> sum_list (map f (xs[i := y])) + f (xs ! i) = sum_list (map f xs) + (f y :: nat)"
proof (induction xs arbitrary: i)
  case Nil
  then show ?case by simp
next
  case (Cons x xs)
  then show ?case by (cases i) auto
qed





lemma returning_Some: "returning pc = Some r \<Longrightarrow> pc = Ret r"
  by (cases pc) simp_all

lemma returning_None_Ret: "returning pc = None \<Longrightarrow> pc \<noteq> Ret r"
  by (cases pc) simp_all


lemma nth_le_sum_list_map: "i < length xs \<Longrightarrow> f (xs ! i) \<le> (sum_list (map f xs) :: nat)"
  by (induction xs arbitrary: i) (auto simp: nth_Cons split: nat.splits intro: trans_le_add2)


lemma tally_replicate: "sum_list (map f (replicate N g)) = N * (f g :: nat)"
  by (induction N) simp_all












lemma cfgKept_refl: "cfgKept c c"
  by (simp add: cfgKept_def)

lemma cfgKept_trans: "cfgKept c c1 \<Longrightarrow> cfgKept c1 c2 \<Longrightarrow> cfgKept c c2"
  by (auto simp: cfgKept_def)

lemma loadObject_cfg: "loadObject env key s = (r, s1) \<Longrightarrow> cfgKept (cfg s) (cfg s1)"
  by (auto simp: loadObject_def newObjectAt_def cfgKept_def Let_def split: if_splits)

lemma from_parent_cfg: "NewObject_from_parent env loc pObj s = (r, s') \<Longrightarrow> cfg s' = cfg s"
  by (auto simp: NewObject_from_parent_def osStat_def newObjectAt_def storeObject_def execCommand_def
        deleteObject_def updateStoredObject_def Let_def
        split: if_splits sum.splits option.splits prod.splits)

lemma NewObject_cfg:
  assumes run: "NewObject env0 loc0 s0 = Some y0"
  shows "cfgKept (cfg s0) (cfg (snd y0))"
proof (rule NewObject.raw_induct
    [where P = "\<lambda>env loc s y. cfgKept (cfg s) (cfg (snd y))", OF _ run], goal_cases)
  case (1 rec env loc s y)
  note IH = "1"(1) and body = "1"(2)
  obtain r1 s1 where l1: "loadObject env loc s = (r1, s1)" by (cases "loadObject env loc s")
  note k1 = loadObject_cfg [OF l1]
  show ?case
  proof (cases r1)
    case (Some eObj)
    with l1 body k1 show ?thesis by auto
  next
    case None
    obtain r2 s2 where l2: "loadObject env (filepath_Dir env loc) s1 = (r2, s2)"
      by (cases "loadObject env (filepath_Dir env loc) s1")
    note k2 = cfgKept_trans [OF k1 loadObject_cfg [OF l2]]
    show ?thesis
    proof (cases r2)
      case (Some pObj)
      with l1 l2 None body have "y = NewObject_from_parent env loc pObj s2" by simp
      with from_parent_cfg [of env loc pObj s2 "fst y" "snd y"] k2 show ?thesis by simp
    next
      case r2None: None
      from l1 l2 None r2None body
      obtain pObj loaded locked err s3 where
        rc: "rec env (filepath_Dir env loc) s2 = Some ((pObj, loaded, locked, err), s3)"
        and rest: "(if err \<noteq> None then Some ((None, False, False, err), s3)
                    else if loaded \<or> locked then Some ((pObj, loaded, locked, None), s3)
                    else (case pObj of None \<Rightarrow> None
                          | Some p \<Rightarrow> Some (NewObject_from_parent env loc p s3))) = Some y"
        by (auto simp: bind_eq_Some_conv)
      from IH [OF rc] k2 have k3: "cfgKept (cfg s) (cfg s3)" by (auto intro: cfgKept_trans)
      show ?thesis
      proof (cases "err \<noteq> None \<or> loaded \<or> locked")
        case True
        with rest k3 show ?thesis by (auto split: if_splits)
      next
        case False
        with rest obtain p where "y = NewObject_from_parent env loc p s3"
          by (auto split: option.splits)
        with from_parent_cfg [of env loc p s3 "fst y" "snd y"] k3 show ?thesis by simp
      qed
    qed
  qed
qed

lemma Sync_cfg:
  assumes "Sync env wr s = Some (r, s')"
  shows "cfgKept (cfg s) (cfg s')"
proof -
  from assms obtain y where n: "NewObject env (wr_loc wr) s = Some y"
    and a: "Sync_after env wr y = Some (r, s')"
    by (auto simp: Sync_def bind_eq_Some_conv)
  from a have "cfg s' = cfg (snd y)"
    by (cases y) (auto simp: Sync_after_def UpdateObjectIfModTimeChanged_def execCommand_def
          updateStoredObject_def Let_def split: if_splits option.splits prod.splits sum.splits)
  with NewObject_cfg [OF n] show ?thesis by simp
qed













lemma resume_free: "reading (resume r) = 0 \<and> writing (resume r) = 0"
  by (cases r) (auto split: option.splits)

lemma fstep_locks:
  assumes "fstep env loc pc s mu = Some (act, s', mu')"
    and "reading pc \<le> readers mu" and "writing pc \<le> held mu"
    and "writer mu \<longrightarrow> readers mu = 0"
  shows "readers mu' + reading pc = readers mu + (case act of Goto pc' \<Rightarrow> reading pc' | Call d \<Rightarrow> 0)
       \<and> held mu' + writing pc = held mu + (case act of Goto pc' \<Rightarrow> writing pc' | Call d \<Rightarrow> 0)
       \<and> (writer mu' \<longrightarrow> readers mu' = 0)"
  using assms
  by (cases pc)
     (auto simp: acquire_def RLock_def RUnlock_def Lock_def Unlock_def held_def
        split: if_splits option.splits prod.splits sum.splits)

lemma gstep_locks:
  assumes st: "gstep env s mu g = Some (g', s', mu')"
    and rd: "onTop reading g \<le> readers mu" and wr: "onTop writing g \<le> held mu"
    and ex: "writer mu \<longrightarrow> readers mu = 0"
  shows "readers mu' + onTop reading g = readers mu + onTop reading g'
       \<and> held mu' + onTop writing g = held mu + onTop writing g'
       \<and> (writer mu' \<longrightarrow> readers mu' = 0)"
proof -
  from st obtain loc pc rest where g: "g = Running ((loc, pc) # rest)"
    by (cases "(env, s, mu, g)" rule: gstep.cases) auto
  show ?thesis
  proof (cases "returning pc")
    case (Some r)
    then have pc: "pc = Ret r" by (rule returning_Some)
    with st g ex show ?thesis
      by (cases rest) (auto simp: onTop_def resume_free)
  next
    case None
    with st g obtain act where f: "fstep env loc pc s mu = Some (act, s', mu')"
      by (auto split: option.splits action.splits)
    from rd wr g have loc: "reading pc \<le> readers mu" "writing pc \<le> held mu"
      by (simp_all add: onTop_def)
    from fstep_locks [OF f loc ex] st g None f show ?thesis
      by (cases act) (auto simp: onTop_def)
  qed
qed

lemma reaches_lockInv:
  assumes "reaches env (startWorld s0 locs) w"
  shows "lockInv w"
  using assms
proof (induction rule: reaches.induct)
  case reaches_start
  have "sum_list (map (onTop f) (map (\<lambda>loc. Running [(loc, L100_RLock)]) locs)) = 0"
    if "f L100_RLock = 0" for f
    using that by (induction locs) (simp_all add: onTop_def)
  then show ?case
    by (simp add: lockInv_def startWorld_def tally_def held_def)
next
  case (reaches_step w i w')
  from reaches_step.hyps(2) have i: "i < length (threads w)" by (auto simp: tstep_def split: if_splits)
  with reaches_step.hyps(2) obtain g' s' mu' where
    gs: "gstep env (om w) (rwmu w) (threads w ! i) = Some (g', s', mu')"
    and w': "w' = w\<lparr>om := s', rwmu := mu', threads := (threads w)[i := g']\<rparr>"
    by (auto simp: tstep_def split: if_splits)
  from reaches_step.IH have inv: "readers (rwmu w) = tally reading w" "held (rwmu w) = tally writing w"
    "writer (rwmu w) \<longrightarrow> readers (rwmu w) = 0"
    unfolding lockInv_def by blast+
  from inv i have rd: "onTop reading (threads w ! i) \<le> readers (rwmu w)"
    and wr: "onTop writing (threads w ! i) \<le> held (rwmu w)"
    by (auto simp: tally_def nth_le_sum_list_map)
  note step = gstep_locks [OF gs rd wr inv(3)]
  have upd: "tally f w' + onTop f (threads w ! i) = tally f w + onTop f g'" for f
    using sum_list_map_update [OF i, of "onTop f" g'] by (simp add: tally_def w')
  show ?case
    unfolding lockInv_def using step upd [of reading] upd [of writing] inv by (simp add: w')
qed

lemma runSchedule_reaches:
  "reaches env w0 w \<Longrightarrow> runSchedule env sched w = Some w' \<Longrightarrow> reaches env w0 w'"
proof (induction sched arbitrary: w)
  case Nil
  then show ?case by simp
next
  case (Cons i sched)
  from Cons.prems(2) obtain w1 where st: "tstep env w i = Some w1"
    and rest: "runSchedule env sched w1 = Some w'"
    by (auto simp: bind_eq_Some_conv)
  from Cons.IH [OF reaches_step [OF Cons.prems(1) st] rest] show ?case .
qed

lemma cfgKept_nonempty: "cfgKept c c' \<Longrightarrow> RootFolderID c \<noteq> [] \<Longrightarrow> c' = c"
  by (auto simp: cfgKept_def)

text \<open>
  C10: a lookup of the sync root while the root identifier is empty sets it to \<open>.\<close> in the
  shared configuration and returns a new sentinel with that \<open>GDId\<close>; so do the steps of a
  goroutine at lines 100 and 107. In every world reached from a start, a goroutine that
  stands inside \<open>loadObject\<close> holds the mutex for reading, with no writer. Once the
  identifier is not empty, \<open>NewObject\<close> and \<open>Sync\<close> leave the configuration as it is. The
  creation command for a parent identifier \<open>.\<close> has no \<open>--parent\<close> argument, and it is the
  command that lines 124-157 issue for a parent whose \<open>GDId\<close> is \<open>.\<close>.
\<close>

theorem loadObject_root_marks_config:
  "(RootFolderID (cfg s) = [] \<longrightarrow>
      loadObject env (binPath env) s
        = (Some (length (heap s)),
           s\<lparr>cfg := (cfg s)\<lparr>RootFolderID := ''.''\<rparr>, heap := heap s @ [rootSentinel]\<rparr>)
      \<and> fstep env (binPath env) L100_loadObject s mu
        = Some (Goto (L102_RLock (length (heap s))),
                s\<lparr>cfg := (cfg s)\<lparr>RootFolderID := ''.''\<rparr>, heap := heap s @ [rootSentinel]\<rparr>,
                RUnlock mu)
      \<and> (filepath_Dir env loc = binPath env \<longrightarrow>
           fstep env loc L107_loadObject s mu
             = Some (Goto (L120_RLock (length (heap s))),
                     s\<lparr>cfg := (cfg s)\<lparr>RootFolderID := ''.''\<rparr>, heap := heap s @ [rootSentinel]\<rparr>,
                     RUnlock mu)))
   \<and> (reaches env (startWorld s0 locs) w \<and> i < length (threads w)
        \<and> (topPc (threads w ! i) = Some L100_loadObject \<or> topPc (threads w ! i) = Some L107_loadObject)
        \<longrightarrow> 0 < readers (rwmu w) \<and> \<not> writer (rwmu w))
   \<and> (NewObject env loc t = Some (r, t') \<and> RootFolderID (cfg t) \<noteq> [] \<longrightarrow> cfg t' = cfg t)
   \<and> (Sync env wr t = Some (r2, t2) \<and> RootFolderID (cfg t) \<noteq> [] \<longrightarrow> cfg t2 = cfg t)
   \<and> createCmd env loc fi ''.''
        = [''sh'', ''-c'',
           ''cd '' @ filepath_Dir env loc @ '' && gdrive files ''
             @ (if fi_IsDir fi then ''mkdir'' else ''upload'') @ '' '' @ filepath_Base env loc
             @ '' --print-only-id'']
   \<and> (\<not> isLocked u pObj \<and> pObj < length (heap u) \<and> GDId (heap u ! pObj) = ''.''
        \<and> os_Stat env (length (statLog u)) loc = Inr fi \<and> objectMap u loc = None
        \<longrightarrow> execLog (snd (NewObject_from_parent env loc pObj u))
              = execLog u @ [createCmd env loc fi ''.''])"
proof -
  have a: "RootFolderID (cfg s) = [] \<longrightarrow>
      loadObject env (binPath env) s
        = (Some (length (heap s)),
           s\<lparr>cfg := (cfg s)\<lparr>RootFolderID := ''.''\<rparr>, heap := heap s @ [rootSentinel]\<rparr>)"
    by (simp add: loadObject_def newObjectAt_def rootSentinel_def)
  have b: "reaches env (startWorld s0 locs) w \<and> i < length (threads w)
        \<and> (topPc (threads w ! i) = Some L100_loadObject \<or> topPc (threads w ! i) = Some L107_loadObject)
        \<longrightarrow> 0 < readers (rwmu w) \<and> \<not> writer (rwmu w)"
  proof (intro impI, elim conjE)
    assume r: "reaches env (startWorld s0 locs) w" and i: "i < length (threads w)"
      and pc: "topPc (threads w ! i) = Some L100_loadObject \<or> topPc (threads w ! i) = Some L107_loadObject"
    from reaches_lockInv [OF r] have inv: "readers (rwmu w) = tally reading w"
      "writer (rwmu w) \<longrightarrow> readers (rwmu w) = 0"
      unfolding lockInv_def by blast+
    from pc have "onTop reading (threads w ! i) = 1" by (auto simp: onTop_def)
    with nth_le_sum_list_map [OF i, of "onTop reading"] inv(1) have "0 < readers (rwmu w)"
      by (simp add: tally_def)
    with inv(2) show "0 < readers (rwmu w) \<and> \<not> writer (rwmu w)" by auto
  qed
  have c: "NewObject env loc t = Some (r, t') \<and> RootFolderID (cfg t) \<noteq> [] \<longrightarrow> cfg t' = cfg t"
    using NewObject_cfg [of env loc t "(r, t')"] by (auto dest: cfgKept_nonempty)
  have d: "Sync env wr t = Some (r2, t2) \<and> RootFolderID (cfg t) \<noteq> [] \<longrightarrow> cfg t2 = cfg t"
    using Sync_cfg [of env wr t r2 t2] by (auto dest: cfgKept_nonempty)
  have e: "\<not> isLocked u pObj \<and> pObj < length (heap u) \<and> GDId (heap u ! pObj) = ''.''
        \<and> os_Stat env (length (statLog u)) loc = Inr fi \<and> objectMap u loc = None
        \<longrightarrow> execLog (snd (NewObject_from_parent env loc pObj u))
              = execLog u @ [createCmd env loc fi ''.'']"
  proof (intro impI, elim conjE)
    assume h: "\<not> isLocked u pObj" "pObj < length (heap u)" "GDId (heap u ! pObj) = ''.''"
      "os_Stat env (length (statLog u)) loc = Inr fi" "objectMap u loc = None"
    show "execLog (snd (NewObject_from_parent env loc pObj u)) = execLog u @ [createCmd env loc fi ''.'']"
    proof (cases "fst (execCommand env (createCmd env loc fi (GDId (heap u ! pObj))) u)")
      case (Inl e)
      from from_parent_backend_error [OF h(1,4,5,2) Inl] h(3) show ?thesis by simp
    next
      case (Inr n)
      from from_parent_created [OF h(1,4,5,2) Inr] h(3) show ?thesis by simp
    qed
  qed
  show ?thesis
    using a b c d e by (simp add: createCmd_def createArgs_def)
qed

lemma twoReaders_run:
  "reaches (testEnv treeStat idRun) (startWorld emptyManager [''/sync'', ''/sync'']) twoReaders"
proof -
  have "runSchedule (testEnv treeStat idRun) [0, 1] (startWorld emptyManager [''/sync'', ''/sync''])
          = Some twoReaders"
    by (simp add: step_defs startWorld_def twoReaders_def emptyManager_def testEnv_def numeral_2_eq_2)
  from runSchedule_reaches [OF reaches_start this] show ?thesis .
qed

lemma dirA_Sync:
  "Sync (testEnv treeStat idRun) dirA treeManager = Some ((False, False, False, None), treeManager)"
proof -
  have "NewObject (testEnv treeStat idRun) (wr_loc dirA) treeManager
          = Some ((Some 1, True, False, None), treeManager)"
    by (subst NewObject_existing [where ob = 1])
       (simp_all add: dirA_def testEnv_def treeManager_def isLocked_def)
  then show ?thesis
    by (simp add: Sync_def Sync_after_def UpdateObjectIfModTimeChanged_def dirA_def)
qed

theorem loadObject_root_marks_config_witness:
  "RootFolderID (cfg emptyManager) = []
   \<and> loadObject (testEnv treeStat idRun) (binPath (testEnv treeStat idRun)) emptyManager
        = (Some 0, rootLookedUp)
   \<and> reaches (testEnv treeStat idRun) (startWorld emptyManager [''/sync'', ''/sync'']) twoReaders
   \<and> topPc (threads twoReaders ! 0) = Some L100_loadObject
   \<and> topPc (threads twoReaders ! 1) = Some L100_loadObject
   \<and> readers (rwmu twoReaders) = 2 \<and> \<not> writer (rwmu twoReaders)
   \<and> fstep (testEnv treeStat idRun) (binPath (testEnv treeStat idRun)) L100_loadObject
          (om twoReaders) (rwmu twoReaders)
        = Some (Goto (L102_RLock 0), rootLookedUp, \<lparr>readers = 1, writer = False\<rparr>)
   \<and> Sync (testEnv treeStat idRun) dirA treeManager = Some ((False, False, False, None), treeManager)
   \<and> RootFolderID (cfg treeManager) \<noteq> []
   \<and> \<not> isLocked rootLookedUp 0 \<and> GDId (heap rootLookedUp ! 0) = ''.''
   \<and> objectMap rootLookedUp ''/sync/a'' = None
   \<and> execLog (snd (NewObject_from_parent (testEnv treeStat idRun) ''/sync/a'' 0 rootLookedUp))
        = [[''sh'', ''-c'', ''cd /sync && gdrive files mkdir a --print-only-id'']]"
proof -
  note main = loadObject_root_marks_config
    [where s = emptyManager and env = "testEnv treeStat idRun" and mu = "rwmu twoReaders"
       and loc = "''/sync/a''" and ?s0.0 = emptyManager and locs = "[''/sync'', ''/sync'']"
       and w = twoReaders and i = 0 and t = treeManager and r = "(Some 1, True, False, None)"
       and t' = treeManager and wr = dirA and ?r2.0 = "(False, False, False, None)"
       and ?t2.0 = treeManager
       and fi = "\<lparr>fi_IsDir = True, fi_ModTime = 40, fi_Size = 4096\<rparr>"
       and u = rootLookedUp and pObj = 0]
  have facts: "RootFolderID (cfg emptyManager) = []"
    "topPc (threads twoReaders ! 0) = Some L100_loadObject"
    "topPc (threads twoReaders ! 1) = Some L100_loadObject"
    "readers (rwmu twoReaders) = 2" "\<not> writer (rwmu twoReaders)"
    "RootFolderID (cfg treeManager) \<noteq> []"
    "\<not> isLocked rootLookedUp 0" "GDId (heap rootLookedUp ! 0) = ''.''"
    "objectMap rootLookedUp ''/sync/a'' = None"
    "0 < length (heap rootLookedUp)"
    "os_Stat (testEnv treeStat idRun) (length (statLog rootLookedUp)) ''/sync/a''
       = Inr \<lparr>fi_IsDir = True, fi_ModTime = 40, fi_Size = 4096\<rparr>"
    "om twoReaders = emptyManager"
    "emptyManager\<lparr>cfg := (cfg emptyManager)\<lparr>RootFolderID := ''.''\<rparr>,
                   heap := heap emptyManager @ [rootSentinel]\<rparr> = rootLookedUp"
    "length (heap emptyManager) = 0"
    "RUnlock (rwmu twoReaders) = \<lparr>readers = 1, writer = False\<rparr>"
    "execLog rootLookedUp = []"
    "createCmd (testEnv treeStat idRun) ''/sync/a'' \<lparr>fi_IsDir = True, fi_ModTime = 40, fi_Size = 4096\<rparr> ''.''
       = [''sh'', ''-c'', ''cd /sync && gdrive files mkdir a --print-only-id'']"
    by (simp_all add: emptyManager_def twoReaders_def treeManager_def rootLookedUp_def
          rootSentinel_def isLocked_def testEnv_def treeStat_def RUnlock_def createCmd_def
          createArgs_def unixDir_a unixBase_a)
  show ?thesis
    using main twoReaders_run dirA_Sync facts by simp
qed

section \<open>The two models of the resolver agree\<close>

text \<open>
  A call of \<open>NewObject\<close> that returns in the sequential model is a run of one goroutine
  in the interleaving model: from the entry of the function the goroutine reaches the
  \<open>return\<close> with the same result, the same manager and the mutex free again. So
  what the sequential theorems say of a returning call holds of a goroutine that is not
  interleaved with another one.
\<close>

lemma reaches_trans:
  assumes "reaches env w0 w1" and "reaches env w1 w2"
  shows "reaches env w0 w2"
  using assms(2)
proof (induction rule: reaches.induct)
  case reaches_start
  show ?case by (rule assms(1))
next
  case (reaches_step w i w')
  then show ?case by (blast intro: reaches.reaches_step)
qed

lemma schedule_reaches: "runSchedule env sched w = Some w' \<Longrightarrow> reaches env w w'"
  by (rule runSchedule_reaches [OF reaches_start])

lemmas solo_defs = solo_def tstep_def acquire_def RLock_def RUnlock_def Lock_def Unlock_def

lemma from_parent_solo:
  assumes run: "NewObject_from_parent env loc pObj s = (r, s')"
  shows "reaches env (solo s (Running ((loc, L120_RLock pObj) # rest)))
           (solo s' (Running ((loc, Ret r) # rest)))"
proof (cases "isLocked s pObj")
  case True
  with run have "runSchedule env [0, 0] (solo s (Running ((loc, L120_RLock pObj) # rest)))
      = Some (solo s' (Running ((loc, Ret r) # rest)))"
    by (simp add: solo_defs NewObject_from_parent_def)
  then show ?thesis by (rule schedule_reaches)
next
  case unlocked: False
  show ?thesis
  proof (cases "osStat env loc s")
    case (Pair a s1)
    show ?thesis
    proof (cases a)
      case (Inl e)
      with run unlocked Pair
      have "runSchedule env [0, 0, 0] (solo s (Running ((loc, L120_RLock pObj) # rest)))
          = Some (solo s' (Running ((loc, Ret r) # rest)))"
        by (simp add: solo_defs NewObject_from_parent_def)
      then show ?thesis by (rule schedule_reaches)
    next
      case (Inr wr)
      obtain lockedNObj s2 where al:
        "newObjectAt (placeholderFor (GDId (heap s1 ! pObj)) wr) s1 = (lockedNObj, s2)"
        by (cases "newObjectAt (placeholderFor (GDId (heap s1 ! pObj)) wr) s1")
      obtain stored s3 where st: "storeObject loc lockedNObj s2 = (stored, s3)"
        by (cases "storeObject loc lockedNObj s2")
      have al': "newObjectAt \<lparr>GDId = [], GDPId = GDId (heap s1 ! pObj),
                    LastMod = (if fi_IsDir wr then 0 else fi_ModTime wr), Size = fi_Size wr\<rparr> s1
                  = (lockedNObj, s2)"
        using al by (simp add: placeholderFor_def)
      show ?thesis
      proof (cases stored)
        case False
        with run unlocked Pair Inr al al' st
        have "runSchedule env [0, 0, 0, 0, 0] (solo s (Running ((loc, L120_RLock pObj) # rest)))
            = Some (solo s' (Running ((loc, Ret r) # rest)))"
          by (simp add: solo_defs NewObject_from_parent_def Let_def)
        then show ?thesis by (rule schedule_reaches)
      next
        case True
        let ?cmd = "createCmd env loc wr (GDId (heap s3 ! pObj))"
        let ?s4 = "s3\<lparr>execLog := execLog s3 @ [?cmd]\<rparr>"
        let ?ans = "if TestMode (cfg s3) then Inr ''0''
                    else cmd_Run env (length (execLog s3)) ?cmd"
        have ex: "execCommand env [''sh'', ''-c'',
                      createArgs (filepath_Dir env loc) (if fi_IsDir wr then ''mkdir'' else ''upload'')
                        (filepath_Base env loc) (GDId (heap s3 ! pObj))] s3 = (?ans, ?s4)"
          by (simp add: execCommand_def Let_def createCmd_def)
        show ?thesis
        proof (cases ?ans)
          case (Inl e)
          with run unlocked Pair \<open>a = Inr wr\<close> al al' st True ex
          have "runSchedule env [0, 0, 0, 0, 0, 0, 0, 0, 0]
                  (solo s (Running ((loc, L120_RLock pObj) # rest)))
              = Some (solo s' (Running ((loc, Ret r) # rest)))"
            by (simp add: solo_defs NewObject_from_parent_def Let_def createCmd_def
                     split: if_splits)
          then show ?thesis by (rule schedule_reaches)
        next
          case (Inr nGDId)
          with run unlocked Pair \<open>a = Inr wr\<close> al al' st True ex
          have "runSchedule env [0, 0, 0, 0, 0, 0, 0, 0, 0]
                  (solo s (Running ((loc, L120_RLock pObj) # rest)))
              = Some (solo s' (Running ((loc, Ret r) # rest)))"
            by (simp add: solo_defs NewObject_from_parent_def Let_def createCmd_def
                     split: if_splits)
          then show ?thesis by (rule schedule_reaches)
        qed
      qed
    qed
  qed
qed


lemma NewObject_solo_aux:
  assumes run: "NewObject env0 loc0 s0 = Some y0"
  shows "\<forall>rest. reaches env0 (solo s0 (Running ((loc0, L100_RLock) # rest)))
           (solo (snd y0) (Running ((loc0, Ret (fst y0)) # rest)))"
proof (rule NewObject.raw_induct
    [where P = "\<lambda>env loc s y. \<forall>rest. reaches env (solo s (Running ((loc, L100_RLock) # rest)))
           (solo (snd y) (Running ((loc, Ret (fst y)) # rest)))", OF _ run], goal_cases)
  case (1 rec env loc s y)
  note IH = "1"(1) and body = "1"(2)
  show ?case
  proof
    fix rest
    obtain r1 s1 where l1: "loadObject env loc s = (r1, s1)" by (cases "loadObject env loc s")
    show "reaches env (solo s (Running ((loc, L100_RLock) # rest)))
           (solo (snd y) (Running ((loc, Ret (fst y)) # rest)))"
    proof (cases r1)
      case (Some eObj)
      with l1 body
      have "runSchedule env [0, 0, 0, 0] (solo s (Running ((loc, L100_RLock) # rest)))
          = Some (solo (snd y) (Running ((loc, Ret (fst y)) # rest)))"
        by (auto simp: solo_defs)
      then show ?thesis by (rule schedule_reaches)
    next
      case None
      obtain r2 s2 where l2: "loadObject env (filepath_Dir env loc) s1 = (r2, s2)"
        by (cases "loadObject env (filepath_Dir env loc) s1")
      show ?thesis
      proof (cases r2)
        case (Some pObj)
        with l1 l2 None body have y: "NewObject_from_parent env loc pObj s2 = (fst y, snd y)"
          by auto
        from l1 l2 None Some
        have "runSchedule env [0, 0, 0, 0] (solo s (Running ((loc, L100_RLock) # rest)))
            = Some (solo s2 (Running ((loc, L120_RLock pObj) # rest)))"
          by (simp add: solo_defs)
        then have "reaches env (solo s (Running ((loc, L100_RLock) # rest)))
            (solo s2 (Running ((loc, L120_RLock pObj) # rest)))"
          by (rule schedule_reaches)
        from reaches_trans [OF this from_parent_solo [OF y]] show ?thesis .
      next
        case r2None: None
        from l1 l2 None r2None body
        obtain pObj loaded locked err s3 where
          rc: "rec env (filepath_Dir env loc) s2 = Some ((pObj, loaded, locked, err), s3)"
          and cont: "(if err \<noteq> None then Some ((None, False, False, err), s3)
                      else if loaded \<or> locked then Some ((pObj, loaded, locked, None), s3)
                      else (case pObj of None \<Rightarrow> None
                            | Some p \<Rightarrow> Some (NewObject_from_parent env loc p s3))) = Some y"
          by (auto simp: bind_eq_Some_conv)
        from l1 l2 None r2None
        have "runSchedule env [0, 0, 0, 0] (solo s (Running ((loc, L100_RLock) # rest)))
            = Some (solo s2 (Running ((filepath_Dir env loc, L100_RLock) # (loc, L110_wait) # rest)))"
          by (simp add: solo_defs)
        then have call: "reaches env (solo s (Running ((loc, L100_RLock) # rest)))
            (solo s2 (Running ((filepath_Dir env loc, L100_RLock) # (loc, L110_wait) # rest)))"
          by (rule schedule_reaches)
        from IH [OF rc]
        have "reaches env
            (solo s2 (Running ((filepath_Dir env loc, L100_RLock) # (loc, L110_wait) # rest)))
            (solo s3 (Running ((filepath_Dir env loc, Ret (pObj, loaded, locked, err))
                                # (loc, L110_wait) # rest)))"
          by simp
        note inner = reaches_trans [OF call this]
        have "runSchedule env [0]
            (solo s3 (Running ((filepath_Dir env loc, Ret (pObj, loaded, locked, err))
                                # (loc, L110_wait) # rest)))
            = Some (solo s3 (Running ((loc, resume (pObj, loaded, locked, err)) # rest)))"
          by (simp add: solo_defs)
        then have "reaches env
            (solo s3 (Running ((filepath_Dir env loc, Ret (pObj, loaded, locked, err))
                                # (loc, L110_wait) # rest)))
            (solo s3 (Running ((loc, resume (pObj, loaded, locked, err)) # rest)))"
          by (rule schedule_reaches)
        note popped = reaches_trans [OF inner this]
        show ?thesis
        proof (cases "err \<noteq> None \<or> loaded \<or> locked")
          case True
          with cont have "resume (pObj, loaded, locked, err) = Ret (fst y)" and "snd y = s3"
            by (auto split: if_splits)
          with popped show ?thesis by simp
        next
          case False
          with cont obtain p where pO: "pObj = Some p"
            and y: "NewObject_from_parent env loc p s3 = (fst y, snd y)"
            by (auto split: option.splits)
          from False pO have "resume (pObj, loaded, locked, err) = L120_RLock p" by simp
          with popped have "reaches env (solo s (Running ((loc, L100_RLock) # rest)))
              (solo s3 (Running ((loc, L120_RLock p) # rest)))"
            by simp
          from reaches_trans [OF this from_parent_solo [OF y]] show ?thesis .
        qed
      qed
    qed
  qed
qed

lemma NewObject_solo:
  assumes "NewObject env loc s = Some (r, s')"
  shows "reaches env (solo s (Running [(loc, L100_RLock)])) (solo s' (Finished r))"
proof -
  from NewObject_solo_aux [OF assms]
  have a: "reaches env (solo s (Running [(loc, L100_RLock)])) (solo s' (Running [(loc, Ret r)]))"
    by simp
  have "runSchedule env [0] (solo s' (Running [(loc, Ret r)])) = Some (solo s' (Finished r))"
    by (simp add: solo_defs)
  then have "reaches env (solo s' (Running [(loc, Ret r)])) (solo s' (Finished r))"
    by (rule schedule_reaches)
  from reaches_trans [OF a this] show ?thesis .
qed

section \<open>The stored pointers of a running process are valid\<close>

text \<open>
  The theorems on the resolver assume that every stored pointer is an allocated object.
  \<open>NewObjectManager\<close> starts the process in such a state and \<open>Sync\<close>
  keeps it.
\<close>

lemma NewObjectManager_validPointers:
  assumes "NewObjectManager env c fs = Inr (Some s)"
  shows "validPointers s"
proof -
  from assms obtain kvs m h where le: "loadEntries kvs (Map.empty, []) = (m, h)"
    and s: "objectMap s = (\<lambda>k. case m k of Some (Some a) \<Rightarrow> Some a | _ \<Rightarrow> None)" "heap s = h"
    by (auto simp: NewObjectManager_def Let_def
          split: prod.splits sum.splits option.splits decoded.splits if_splits)
  from loadEntries_objects [OF le] have "\<forall>k a. m k = Some (Some a) \<longrightarrow> a < length h" by simp
  with s show ?thesis by (auto simp: validPointers_def split: option.splits)
qed

lemma Sync_validPointers:
  assumes "Sync env wr s = Some (r, s')" and "validPointers s"
  shows "validPointers s'"
proof -
  from assms(1) obtain y where n: "NewObject env (wr_loc wr) s = Some y"
    and a: "Sync_after env wr y = Some (r, s')"
    by (auto simp: Sync_def bind_eq_Some_conv)
  from NewObject_grows_aux [OF n] assms(2) have v: "validPointers (snd y)"
    by (simp add: grows_def)
  obtain ob loaded locked err s1 where y: "y = ((ob, loaded, locked, err), s1)"
    by (cases y) auto
  from a y v show ?thesis
    by (auto simp: Sync_after_def UpdateObjectIfModTimeChanged_def Let_def execCommand_def
          updateStoredObject_def validPointers_def split: if_splits option.splits sum.splits prod.splits)
qed

end
